theory Spec2Isabelle
  imports Complex_Main
begin

section \<open>Shared vocabulary: decoded JSON, Python truthiness, exceptions\<close>

text \<open>
  The scripts under \<^verbatim>\<open>examples/\<close> drive an external command line client and parse its
  standard output with \<^verbatim>\<open>json.loads\<close>.  A decoded document is a value of the following
  type; an object is an association list with pairwise distinct keys (a Python \<^verbatim>\<open>dict\<close>),
  read with \<open>map_of\<close>.
\<close>

datatype json =
    JNull
  | JBool bool
  | JNum rat
  | JStr string
  | JArr "json list"
  | JObj "(string \<times> json) list"

text \<open>Python's truth value of a decoded document (\<^verbatim>\<open>if not x\<close>).\<close>

fun truthy :: "json \<Rightarrow> bool" where
  "truthy JNull = False"
| "truthy (JBool b) = b"
| "truthy (JNum q) = (q \<noteq> 0)"
| "truthy (JStr s) = (s \<noteq> [])"
| "truthy (JArr xs) = (xs \<noteq> [])"
| "truthy (JObj kvs) = (kvs \<noteq> [])"

text \<open>
  The exception classes that occur in the scripts.  Only the class is modelled, the message
  is not.
\<close>

datatype exn =
    CalledProcessError
  | JSONDecodeError
  | ValueError
  | AttributeError
  | TypeError
  | IndexError
  | OverflowError
  | BrunoAPIError
  | AuthenticationError
  | RateLimitError
  | ResourceNotFoundError
  | ValidationError
  | OtherException

section \<open>\<^verbatim>\<open>error_handling_retry.py\<close>: the retrying client\<close>

text \<open>
  The fields of \<^verbatim>\<open>BrunoClient\<close>.  Delays are finite Python floats, modelled as reals;
  the product \<^verbatim>\<open>delay * self.backoff_factor\<close> is computed exactly here, where the
  interpreter rounds it to the nearest double, so the two agree where the product is a double
  itself (as for whole numbers up to \<open>2 ^ 53\<close>).  Points in time are seconds on the wall
  clock.  The field \<open>trace\<close> is not a field of the class: it records, in chronological
  order, what the object did to the outside world, so that attempts, refreshes and sleeps can
  be counted.
\<close>

datatype event =
    EvAuthenticate bool  \<comment> \<open>\<^verbatim>\<open>authenticate(force)\<close> was entered\<close>
  | EvAuthSubprocess     \<comment> \<open>the token request was run as a subprocess\<close>
  | EvRun "string list"  \<comment> \<open>\<^verbatim>\<open>_run_bruno_command(bru_files)\<close> was run\<close>
  | EvSleep real         \<comment> \<open>\<^verbatim>\<open>time.sleep(delay)\<close>\<close>

record BrunoClient =
  env :: string
  max_retries :: int
  initial_retry_delay :: real
  max_retry_delay :: real
  backoff_factor :: real
  token_expires_at :: "real option"
  last_auth_time :: "real option"
  trace :: "event list"

text \<open>
  The outside world, as the client sees it: whether the \<open>n\<close>-th token subprocess exits with
  status zero, what the \<open>n\<close>-th run of \<^verbatim>\<open>_run_bruno_command\<close> returns or raises, and what
  the clock shows when \<^verbatim>\<open>datetime.now()\<close> is read after \<open>n\<close> events.
\<close>

record world =
  auth_ok :: "nat \<Rightarrow> bool"
  run_result :: "nat \<Rightarrow> exn + json"
  now :: "nat \<Rightarrow> real"

text \<open>
  The client also sleeps.  \<^verbatim>\<open>time.sleep(secs)\<close> converts the delay to a signed 64-bit
  count of nanoseconds and raises \<^verbatim>\<open>OverflowError\<close> when it does not fit, raises
  \<^verbatim>\<open>ValueError\<close> for a negative delay, and otherwise sleeps, unless the operating system
  refuses the delay as too long for its clock, which it may do for a delay that the conversion
  has let pass (the class of the exception raised there depends on the platform;
  \<^verbatim>\<open>OverflowError\<close> stands for it).  From which delay on it does is the field
  \<open>sleep_limit\<close> of the world.  The result is the exception raised, if any.
\<close>

record retry_world = world +
  sleep_limit :: real

definition time_sleep :: "retry_world \<Rightarrow> real \<Rightarrow> exn option" where
  "time_sleep w secs =
     (if secs * 10 ^ 9 < - (2 ^ 63) \<or> 2 ^ 63 \<le> secs * 10 ^ 9 then Some OverflowError
      else if secs < 0 then Some ValueError
      else if sleep_limit w \<le> secs then Some OverflowError
      else None)"

text \<open>\<^verbatim>\<open>time.sleep\<close> accepts the delays from 0 up to, but not including, this one.\<close>

definition longest_sleep :: "retry_world \<Rightarrow> real" where
  "longest_sleep w = min (sleep_limit w) (2 ^ 63 / 10 ^ 9)"

fun is_run :: "event \<Rightarrow> bool" where
  "is_run (EvRun fs) = True"
| "is_run _ = False"

fun is_auth_subprocess :: "event \<Rightarrow> bool" where
  "is_auth_subprocess EvAuthSubprocess = True"
| "is_auth_subprocess _ = False"

fun is_forced_refresh :: "event \<Rightarrow> bool" where
  "is_forced_refresh (EvAuthenticate force) = force"
| "is_forced_refresh _ = False"

fun sleep_of :: "event \<Rightarrow> real list" where
  "sleep_of (EvSleep d) = [d]"
| "sleep_of _ = []"

definition slept_delays :: "event list \<Rightarrow> real list" where
  "slept_delays es = concat (map sleep_of es)"

definition attempts :: "event list \<Rightarrow> nat" where
  "attempts es = length (filter is_run es)"

definition forced_refreshes :: "event list \<Rightarrow> nat" where
  "forced_refreshes es = length (filter is_forced_refresh es)"

definition log_event :: "event \<Rightarrow> BrunoClient \<Rightarrow> BrunoClient" where
  "log_event e c = c\<lparr>trace := trace c @ [e]\<rparr>"

definition should_refresh_token :: "'a world_scheme \<Rightarrow> BrunoClient \<Rightarrow> bool" where
  "should_refresh_token w c =
     (case token_expires_at c of
        None \<Rightarrow> True
      | Some expires \<Rightarrow> now w (length (trace c)) \<ge> expires - 300)"

definition authenticate ::
  "'a world_scheme \<Rightarrow> bool \<Rightarrow> BrunoClient \<Rightarrow> (exn + unit) \<times> BrunoClient" where
  "authenticate w force c0 =
     (let c = log_event (EvAuthenticate force) c0 in
      if \<not> force \<and> \<not> should_refresh_token w c then (Inr (), c)
      else
        let n = length (filter is_auth_subprocess (trace c));
            c1 = log_event EvAuthSubprocess c
        in if auth_ok w n then
             let t = now w (length (trace c1)) in
             (Inr (), c1\<lparr>last_auth_time := Some t, token_expires_at := Some (t + 3600)\<rparr>)
           else (Inl AuthenticationError, c1))"

definition run_bruno_command ::
  "'a world_scheme \<Rightarrow> string list \<Rightarrow> BrunoClient \<Rightarrow> (exn + json) \<times> BrunoClient" where
  "run_bruno_command w bru_files c =
     (run_result w (attempts (trace c)), log_event (EvRun bru_files) c)"

text \<open>
  \<^verbatim>\<open>time.sleep(secs)\<close> as the client calls it: a delay that is slept is recorded, a
  delay that is refused raises and nothing is slept.
\<close>

definition sleep :: "retry_world \<Rightarrow> real \<Rightarrow> BrunoClient \<Rightarrow> (exn + unit) \<times> BrunoClient" where
  "sleep w secs c =
     (case time_sleep w secs of
        Some e \<Rightarrow> (Inl e, c)
      | None \<Rightarrow> (Inr (), log_event (EvSleep secs) c))"

text \<open>
  The \<^verbatim>\<open>while retry_count <= self.max_retries\<close> loop of \<^verbatim>\<open>request_with_retry\<close>, one
  equation per iteration; the branches are the \<^verbatim>\<open>except\<close> clauses in the order of the
  source.  An exception that no clause catches leaves the loop as it is, and so does one that
  is raised inside a clause, by \<^verbatim>\<open>time.sleep\<close> or by \<^verbatim>\<open>authenticate\<close>.
\<close>

function retry_loop ::
  "retry_world \<Rightarrow> string \<Rightarrow> int \<Rightarrow> real \<Rightarrow> BrunoClient \<Rightarrow> (exn + json) \<times> BrunoClient" where
  "retry_loop w bru_file retry_count delay c =
     (if retry_count \<le> max_retries c then
        (case run_bruno_command w [''auth/get-iam-token.bru'', bru_file] c of
           (Inr response, c1) \<Rightarrow> (Inr response, c1)
         | (Inl CalledProcessError, c1) \<Rightarrow>
             if retry_count < max_retries c1 then
               (case sleep w delay c1 of
                  (Inl e, c2) \<Rightarrow> (Inl e, c2)
                | (Inr u, c2) \<Rightarrow>
                    retry_loop w bru_file (retry_count + 1)
                      (min (delay * backoff_factor c2) (max_retry_delay c2)) c2)
             else (Inl BrunoAPIError, c1)
         | (Inl JSONDecodeError, c1) \<Rightarrow> (Inl BrunoAPIError, c1)
         | (Inl AuthenticationError, c1) \<Rightarrow>
             if retry_count = 0 then
               (case authenticate w True c1 of
                  (Inl e, c2) \<Rightarrow> (Inl e, c2)
                | (Inr u, c2) \<Rightarrow> retry_loop w bru_file (retry_count + 1) delay c2)
             else (Inl AuthenticationError, c1)
         | (Inl RateLimitError, c1) \<Rightarrow>
             if retry_count < max_retries c1 then
               (case sleep w delay c1 of
                  (Inl e, c2) \<Rightarrow> (Inl e, c2)
                | (Inr u, c2) \<Rightarrow>
                    retry_loop w bru_file (retry_count + 1)
                      (min (delay * backoff_factor c2) (max_retry_delay c2)) c2)
             else (Inl RateLimitError, c1)
         | (Inl e, c1) \<Rightarrow> (Inl e, c1))
      else (Inl BrunoAPIError, c))"
  by pat_completeness auto
termination
  by (relation "measure (\<lambda>(w, f, retry_count, delay, c). nat (max_retries c + 1 - retry_count))")
     (auto simp: sleep_def run_bruno_command_def authenticate_def log_event_def Let_def
           split: if_splits option.splits)

declare retry_loop.simps [simp del]

definition request_with_retry ::
  "retry_world \<Rightarrow> string \<Rightarrow> BrunoClient \<Rightarrow> (exn + json) \<times> BrunoClient" where
  "request_with_retry w bru_file c =
     (case authenticate w False c of
        (Inl e, c1) \<Rightarrow> (Inl e, c1)
      | (Inr u, c1) \<Rightarrow> retry_loop w bru_file 0 (initial_retry_delay c1) c1)"

text \<open>What one call added to the trace.\<close>

definition call_events :: "BrunoClient \<Rightarrow> BrunoClient \<Rightarrow> event list" where
  "call_events c c' = drop (length (trace c)) (trace c')"

text \<open>
  The delay that is slept directly after the \<open>k\<close>-th run of the external command in a list
  of events, if a sleep follows that run.
\<close>

fun sleep_after_attempt :: "event list \<Rightarrow> nat \<Rightarrow> real option" where
  "sleep_after_attempt [] k = None"
| "sleep_after_attempt (EvRun fs # es) 0 = (case es of EvSleep d # _ \<Rightarrow> Some d | _ \<Rightarrow> None)"
| "sleep_after_attempt (EvRun fs # es) (Suc k) = sleep_after_attempt es k"
| "sleep_after_attempt (_ # es) k = sleep_after_attempt es k"

text \<open>
  The value of the local variable \<^verbatim>\<open>delay\<close> after \<open>k\<close> executions of the update
  \<^verbatim>\<open>delay = min(delay * self.backoff_factor, self.max_retry_delay)\<close>, started at \<open>d\<close>.
\<close>

fun delay_after :: "real \<Rightarrow> real \<Rightarrow> real \<Rightarrow> nat \<Rightarrow> real" where
  "delay_after f mx d 0 = d"
| "delay_after f mx d (Suc k) = delay_after f mx (min (d * f) mx) k"

text \<open>
  Concrete worlds and clients.  In \<open>always_failing\<close> the token request always succeeds and
  every run of the external command exits with a non-zero status; in \<open>cli_down\<close> the token
  request exits with a non-zero status as well.  The clients are the one that
  \<^verbatim>\<open>BrunoClient()\<close> constructs, one whose initial delay is above its maximum delay, and
  \<^verbatim>\<open>BrunoClient(initial_retry_delay=-1.0)\<close>.
\<close>

definition always_failing :: retry_world where
  "always_failing = \<lparr>auth_ok = (\<lambda>n. True), run_result = (\<lambda>n. Inl CalledProcessError),
     now = (\<lambda>n. 0), sleep_limit = 2 ^ 63 / 10 ^ 9\<rparr>"

definition cli_down :: retry_world where
  "cli_down = \<lparr>auth_ok = (\<lambda>n. False), run_result = (\<lambda>n. Inl CalledProcessError),
     now = (\<lambda>n. 0), sleep_limit = 2 ^ 63 / 10 ^ 9\<rparr>"

definition default_client :: BrunoClient where
  "default_client = \<lparr>env = ''prod'', max_retries = 3, initial_retry_delay = 1,
     max_retry_delay = 60, backoff_factor = 2, token_expires_at = None, last_auth_time = None,
     trace = []\<rparr>"

definition eager_client :: BrunoClient where
  "eager_client = \<lparr>env = ''prod'', max_retries = 2, initial_retry_delay = 100,
     max_retry_delay = 60, backoff_factor = 2, token_expires_at = None, last_auth_time = None,
     trace = []\<rparr>"

definition negative_delay_client :: BrunoClient where
  "negative_delay_client = \<lparr>env = ''prod'', max_retries = 3, initial_retry_delay = - 1,
     max_retry_delay = 60, backoff_factor = 2, token_expires_at = None, last_auth_time = None,
     trace = []\<rparr>"


text \<open>
  The failures that the loop answers with a backoff sleep: the \<^verbatim>\<open>except\<close> clauses for
  \<^verbatim>\<open>CalledProcessError\<close> and \<^verbatim>\<open>RateLimitError\<close>.
\<close>

definition backoff_failure :: "exn + json \<Rightarrow> bool" where
  "backoff_failure r = (r = Inl CalledProcessError \<or> r = Inl RateLimitError)"

text \<open>A world in which every run of the external command is answered with 401.\<close>

definition expired_token :: retry_world where
  "expired_token = \<lparr>auth_ok = (\<lambda>n. True), run_result = (\<lambda>n. Inl AuthenticationError),
     now = (\<lambda>n. 0), sleep_limit = 2 ^ 63 / 10 ^ 9\<rparr>"

section \<open>\<^verbatim>\<open>pagination_example.py\<close>: cursor pagination\<close>

text \<open>
  Python's \<^verbatim>\<open>str.split(sep)\<close> and \<^verbatim>\<open>sub in s\<close>.  The separators of the scripts are
  the non-empty literals \<^verbatim>\<open>"start="\<close>, \<^verbatim>\<open>"&"\<close> and \<^verbatim>\<open>"."\<close>.
\<close>

definition starts_with :: "string \<Rightarrow> string \<Rightarrow> bool" where
  "starts_with sep s = (take (length sep) s = sep)"

fun contains :: "string \<Rightarrow> string \<Rightarrow> bool" where
  "contains sub [] = (sub = [])"
| "contains sub (c # cs) = (starts_with sub (c # cs) \<or> contains sub cs)"

fun split_from :: "string \<Rightarrow> string \<Rightarrow> string \<Rightarrow> string list" where
  "split_from sep cur [] = [cur]"
| "split_from sep cur (c # cs) =
     (if starts_with sep (c # cs) then cur # split_from sep [] (drop (length sep - 1) cs)
      else split_from sep (cur @ [c]) cs)"

definition py_split :: "string \<Rightarrow> string \<Rightarrow> string list" where
  "py_split sep s = split_from sep [] s"

text \<open>\<^verbatim>\<open>d.get(key, default)\<close> on a decoded object.\<close>

definition dict_get :: "(string \<times> json) list \<Rightarrow> string \<Rightarrow> json \<Rightarrow> json" where
  "dict_get kvs key dflt = (case map_of kvs key of None \<Rightarrow> dflt | Some v \<Rightarrow> v)"

text \<open>
  \<^verbatim>\<open>get_pagination_cursor\<close>.  A value that is not a mapping has no \<^verbatim>\<open>get\<close>
  (\<^verbatim>\<open>AttributeError\<close>), a number or a boolean does not support \<^verbatim>\<open>in\<close>
  (\<^verbatim>\<open>TypeError\<close>), and a list or a mapping that contains \<^verbatim>\<open>"start="\<close> has no
  \<^verbatim>\<open>split\<close>.
\<close>

definition get_pagination_cursor :: "json \<Rightarrow> exn + string option" where
  "get_pagination_cursor response =
     (case response of
        JObj kvs \<Rightarrow>
          (let next_link = dict_get kvs ''next'' (JObj []) in
           if \<not> truthy next_link then Inr None
           else
             (case next_link of
                JObj nkvs \<Rightarrow>
                  (let href = dict_get nkvs ''href'' (JStr []) in
                   if \<not> truthy href then Inr None
                   else
                     (case href of
                        JStr s \<Rightarrow>
                          if contains ''start='' s then
                            (case py_split ''start='' s of
                               _ # after # _ \<Rightarrow>
                                 (case py_split ''&'' after of
                                    start_param # _ \<Rightarrow> Inr (Some start_param)
                                  | [] \<Rightarrow> Inl IndexError)
                             | _ \<Rightarrow> Inl IndexError)
                          else Inr None
                      | JArr xs \<Rightarrow>
                          if JStr ''start='' \<in> set xs then Inl AttributeError else Inr None
                      | JObj hkvs \<Rightarrow>
                          if ''start='' \<in> set (map fst hkvs) then Inl AttributeError
                          else Inr None
                      | _ \<Rightarrow> Inl TypeError))
              | _ \<Rightarrow> Inl AttributeError))
      | _ \<Rightarrow> Inl AttributeError)"

text \<open>
  Lines 132 to 142 of \<^verbatim>\<open>paginate_list_vpcs\<close>: the items of the page, after \<^verbatim>\<open>len(vpcs)\<close>
  and the loop that prints \<^verbatim>\<open>vpc.get('name', 'N/A')\<close> for each of them.
\<close>

fun is_dict :: "json \<Rightarrow> bool" where
  "is_dict (JObj kvs) = True"
| "is_dict _ = False"

definition page_vpcs :: "json \<Rightarrow> exn + json list" where
  "page_vpcs response =
     (case response of
        JObj kvs \<Rightarrow>
          (case dict_get kvs ''vpcs'' (JArr []) of
             JArr xs \<Rightarrow> if list_all is_dict xs then Inr xs else Inl AttributeError
           | JStr s \<Rightarrow> if s = [] then Inr [] else Inl AttributeError
           | JObj vkvs \<Rightarrow> if vkvs = [] then Inr [] else Inl AttributeError
           | _ \<Rightarrow> Inl TypeError)
      | _ \<Rightarrow> Inl AttributeError)"

text \<open>
  The local variables of \<^verbatim>\<open>paginate_list_vpcs\<close>; \<open>fetched\<close> counts the runs of the
  external command and is not a variable of the source.
\<close>

record pager =
  all_vpcs :: "json list"
  page_num :: int
  cursor :: "string option"
  fetched :: nat

definition reached_max_pages :: "int option \<Rightarrow> int \<Rightarrow> bool" where
  "reached_max_pages max_pages pn =
     (case max_pages of None \<Rightarrow> False | Some m \<Rightarrow> m \<noteq> 0 \<and> pn > m)"

definition cursor_truthy :: "string option \<Rightarrow> bool" where
  "cursor_truthy cur = (case cur of None \<Rightarrow> False | Some s \<Rightarrow> s \<noteq> [])"

text \<open>
  The \<^verbatim>\<open>while True\<close> loop.  It need not end, so it carries fuel: \<open>None\<close> means that the
  fuel did not suffice.  The result tells which exception left the function, if any.  The
  request that is run does not depend on the cursor, and \<^verbatim>\<open>limit\<close> is only printed.
\<close>

fun paginate_loop :: "nat \<Rightarrow> world \<Rightarrow> int option \<Rightarrow> pager \<Rightarrow> (exn option \<times> pager) option" where
  "paginate_loop 0 w max_pages p = None"
| "paginate_loop (Suc fuel) w max_pages p =
     (if reached_max_pages max_pages (page_num p) then Some (None, p)
      else
        (case run_result w (fetched p) of
           Inl CalledProcessError \<Rightarrow> Some (None, p\<lparr>fetched := Suc (fetched p)\<rparr>)
         | Inl JSONDecodeError \<Rightarrow> Some (None, p\<lparr>fetched := Suc (fetched p)\<rparr>)
         | Inl e \<Rightarrow> Some (Some e, p\<lparr>fetched := Suc (fetched p)\<rparr>)
         | Inr response \<Rightarrow>
             (let p1 = p\<lparr>fetched := Suc (fetched p)\<rparr> in
              case page_vpcs response of
                Inl e \<Rightarrow> Some (Some e, p1)
              | Inr vpcs \<Rightarrow>
                  (let p2 = p1\<lparr>all_vpcs := all_vpcs p1 @ vpcs\<rparr> in
                   case get_pagination_cursor response of
                     Inl e \<Rightarrow> Some (Some e, p2)
                   | Inr cur \<Rightarrow>
                       (let p3 = p2\<lparr>cursor := cur\<rparr> in
                        if \<not> cursor_truthy cur then Some (None, p3)
                        else paginate_loop fuel w max_pages
                               (p3\<lparr>page_num := page_num p3 + 1\<rparr>))))))"

definition paginate_list_vpcs ::
  "nat \<Rightarrow> world \<Rightarrow> int \<Rightarrow> int option \<Rightarrow> ((exn + json list) \<times> nat) option" where
  "paginate_list_vpcs fuel w limit max_pages =
     (case paginate_loop fuel w max_pages
             \<lparr>all_vpcs = [], page_num = 1, cursor = None, fetched = 0\<rparr> of
        None \<Rightarrow> None
      | Some (None, p) \<Rightarrow> Some (Inr (all_vpcs p), fetched p)
      | Some (Some e, p) \<Rightarrow> Some (Inl e, fetched p))"

text \<open>Decoded responses and worlds for concrete runs.\<close>

definition vpc_item :: "string \<Rightarrow> json" where
  "vpc_item i = JObj [(''id'', JStr i), (''name'', JStr (''vpc-'' @ i))]"

definition page_with_next :: json where
  "page_with_next =
     JObj [(''vpcs'', JArr [vpc_item ''a'', vpc_item ''b'']),
           (''next'', JObj [(''href'', JStr ''https://h/v1/vpcs?start=abc123&version=2024-12-10'')])]"

definition last_page :: json where
  "last_page = JObj [(''vpcs'', JArr [vpc_item ''y'', vpc_item ''z''])]"

definition three_pages :: world where
  "three_pages = \<lparr>auth_ok = (\<lambda>n. True),
     run_result = (\<lambda>n. if n < 2 then Inr page_with_next else Inr last_page),
     now = (\<lambda>n. 0)\<rparr>"

definition endless_pages :: world where
  "endless_pages = \<lparr>auth_ok = (\<lambda>n. True), run_result = (\<lambda>n. Inr page_with_next),
     now = (\<lambda>n. 0)\<rparr>"

definition full_last_page :: json where
  "full_last_page =
     JObj [(''vpcs'', JArr [vpc_item ''a'', vpc_item ''b'']),
           (''next'', JObj [(''href'', JStr ''https://h/v1/vpcs?limit=2'')])]"

definition one_full_page :: world where
  "one_full_page = \<lparr>auth_ok = (\<lambda>n. True), run_result = (\<lambda>n. Inr full_last_page),
     now = (\<lambda>n. 0)\<rparr>"

section \<open>\<^verbatim>\<open>workflow_chaining.py\<close>: the chained workflow\<close>

text \<open>\<^verbatim>\<open>str(n)\<close> for an integer, \<^verbatim>\<open>s.upper()\<close> for ASCII letters, and a name in quotes.\<close>

function str_nat :: "nat \<Rightarrow> string" where
  "str_nat n =
     (if n < 10 then [char_of (48 + n)] else str_nat (n div 10) @ [char_of (48 + n mod 10)])"
  by pat_completeness auto
termination
  by (relation "measure id") auto

declare str_nat.simps [simp del]

definition str_int :: "int \<Rightarrow> string" where
  "str_int i = (if i < 0 then CHR ''-'' # str_nat (nat (- i)) else str_nat (nat i))"

definition upper_char :: "char \<Rightarrow> char" where
  "upper_char c =
     (let n = (of_char c :: nat) in if 97 \<le> n \<and> n \<le> 122 then char_of (n - 32) else c)"

definition upper :: "string \<Rightarrow> string" where
  "upper s = map upper_char s"

definition quoted :: "string \<Rightarrow> string" where
  "quoted s = [CHR 0x27] @ s @ [CHR 0x27]"

text \<open>
  The fields of \<^verbatim>\<open>WorkflowStep\<close> and its constructor.  \<^verbatim>\<open>env_vars\<close> is a dictionary
  from strings to strings: an association list with pairwise distinct keys, in insertion
  order.  The two time stamps of a step, and with them the durations that are printed, are
  left out.
\<close>

record WorkflowStep =
  name :: string
  description :: string
  bru_file :: string
  env_vars :: "(string \<times> string) list"
  extract_id_key :: "string option"
  result :: "json option"
  extracted_id :: "string option"
  status :: string
  error :: "string option"

definition new_step ::
  "string \<Rightarrow> string \<Rightarrow> string \<Rightarrow> (string \<times> string) list \<Rightarrow> string option \<Rightarrow> WorkflowStep" where
  "new_step n d b e k =
     \<lparr>name = n, description = d, bru_file = b, env_vars = e, extract_id_key = k,
      result = None, extracted_id = None, status = ''pending'', error = None\<rparr>"

text \<open>
  What \<^verbatim>\<open>_print_summary\<close> prints: the status line, the count of completed steps, for
  each step its icon and description with the identifier and the error if there is one, and
  whether the created resources are listed after that.
\<close>

datatype icon = IconCompleted | IconFailed | IconNotRun

record summary =
  summary_status :: string
  steps_completed :: nat
  steps_total :: nat
  step_lines :: "(icon \<times> string \<times> string option \<times> string option) list"
  resources_listed :: bool

text \<open>
  The fields of \<^verbatim>\<open>VPCWorkflow\<close> (\<open>wf_env\<close> is \<^verbatim>\<open>self.env\<close>) without its two time
  stamps.  The last three fields are not fields of the class: \<open>invocations\<close> lists the
  commands that were run as subprocesses, each with the variables added to its environment,
  \<open>pauses\<close> counts the calls of \<^verbatim>\<open>time.sleep(1)\<close>, and \<open>printed\<close> lists the summaries
  that were printed.
\<close>

record VPCWorkflow =
  vpc_name :: string
  subnet_name :: string
  sg_name :: string
  instance_name :: string
  zone_name :: string
  subnet_ip_count :: int
  instance_profile :: string
  image_id :: "string option"
  ssh_key_id :: "string option"
  resource_group_id :: "string option"
  wf_env :: string
  create_floating_ip :: bool
  steps :: "WorkflowStep list"
  current_step_index :: nat
  workflow_status :: string
  vpc_id :: "string option"
  subnet_id :: "string option"
  sg_id :: "string option"
  instance_id :: "string option"
  floating_ip_id :: "string option"
  floating_ip_address :: "string option"
  invocations :: "(string list \<times> (string \<times> string) list) list"
  pauses :: nat
  printed :: "summary list"

definition init_workflow ::
  "string \<Rightarrow> string \<Rightarrow> string \<Rightarrow> string \<Rightarrow> string \<Rightarrow> int \<Rightarrow> string \<Rightarrow> string option \<Rightarrow>
   string option \<Rightarrow> string option \<Rightarrow> string \<Rightarrow> bool \<Rightarrow> VPCWorkflow" where
  "init_workflow vpc subnet sg inst zone ip_count profile img key resource_group
       environment floating_ip =
     \<lparr>vpc_name = vpc, subnet_name = subnet, sg_name = sg, instance_name = inst,
      zone_name = zone, subnet_ip_count = ip_count, instance_profile = profile,
      image_id = img, ssh_key_id = key, resource_group_id = resource_group,
      wf_env = environment, create_floating_ip = floating_ip,
      steps = [], current_step_index = 0, workflow_status = ''not_started'',
      vpc_id = None, subnet_id = None, sg_id = None, instance_id = None,
      floating_ip_id = None, floating_ip_address = None,
      invocations = [], pauses = 0, printed = []\<rparr>"

text \<open>
  The outside world of the workflow: \<open>run_result w n\<close> is what the \<open>n\<close>-th subprocess of
  the workflow and the parsing of its output yield, \<open>failure_text w n\<close> is the text of the
  exception if it fails (\<^verbatim>\<open>str(e.stderr)\<close> or \<^verbatim>\<open>str(e)\<close>), and \<open>py_str w\<close> is
  \<^verbatim>\<open>str\<close> on decoded values that are not strings.
\<close>

record wf_world = world +
  failure_text :: "nat \<Rightarrow> string"
  py_str :: "json \<Rightarrow> string"

text \<open>The truth value of an optional string (\<^verbatim>\<open>if self.vpc_id\<close>, \<^verbatim>\<open>if extracted_id\<close>).\<close>

definition captured :: "string option \<Rightarrow> bool" where
  "captured x = (case x of None \<Rightarrow> False | Some s \<Rightarrow> s \<noteq> [])"

text \<open>
  \<^verbatim>\<open>_run_bruno_request\<close>.  Whatever \<^verbatim>\<open>subprocess.run\<close> or \<^verbatim>\<open>json.loads\<close> raises
  leaves the function.
\<close>

definition bru_command :: "string \<Rightarrow> string \<Rightarrow> string list" where
  "bru_command bru environment =
     [''bru'', ''run'', ''auth/get-iam-token.bru'', bru, ''--env'', environment,
      ''--output'', ''json'']"

definition run_bruno_request ::
  "'a wf_world_scheme \<Rightarrow> string \<Rightarrow> (string \<times> string) list \<Rightarrow> VPCWorkflow \<Rightarrow>
   ((exn \<times> string) + json) \<times> VPCWorkflow" where
  "run_bruno_request w bru env_vs self =
     (let n = length (invocations self);
          cmd = bru_command bru (wf_env self);
          self1 = self\<lparr>invocations := invocations self @ [(cmd, env_vs)]\<rparr>
      in case run_result w n of
           Inl e \<Rightarrow> (Inl (e, failure_text w n), self1)
         | Inr response \<Rightarrow> (Inr response, self1))"

text \<open>
  \<^verbatim>\<open>_extract_value\<close>: the loop over the keys of the path, then \<^verbatim>\<open>str(current)\<close> unless
  the value found is \<^verbatim>\<open>None\<close>.
\<close>

fun lookup_path :: "json \<Rightarrow> string list \<Rightarrow> json option" where
  "lookup_path current [] = Some current"
| "lookup_path current (key # keys) =
     (case current of
        JObj kvs \<Rightarrow>
          (case map_of kvs key of Some v \<Rightarrow> lookup_path v keys | None \<Rightarrow> None)
      | _ \<Rightarrow> None)"

definition extract_value :: "'a wf_world_scheme \<Rightarrow> json \<Rightarrow> string \<Rightarrow> string option" where
  "extract_value w data key_path =
     (case lookup_path data (py_split ''.'' key_path) of
        None \<Rightarrow> None
      | Some JNull \<Rightarrow> None
      | Some (JStr s) \<Rightarrow> Some s
      | Some current \<Rightarrow> Some (py_str w current))"

text \<open>
  \<^verbatim>\<open>_build_steps\<close>.  The seven steps before the check of \<^verbatim>\<open>image_id\<close> are in
  \<^verbatim>\<open>self.steps\<close> when the check raises \<^verbatim>\<open>ValueError\<close>.
\<close>

definition build_steps :: "VPCWorkflow \<Rightarrow> (exn + unit) \<times> VPCWorkflow" where
  "build_steps self =
     (let env_vs = [(''NEW_VPC_NAME'', vpc_name self)] @
            (if captured (resource_group_id self)
             then [(''RESOURCE_GROUP_ID'', the (resource_group_id self))] else []);
          first_seven =
            [new_step ''create_vpc'' (''Create VPC '' @ quoted (vpc_name self))
               ''vpc/create-vpc.bru'' env_vs (Some ''id''),
             new_step ''create_subnet''
               (''Create subnet '' @ quoted (subnet_name self) @ '' in zone '' @ zone_name self)
               ''vpc/subnets/create-subnet.bru''
               [(''NEW_SUBNET_NAME'', subnet_name self), (''VPC_ID'', ''${vpc_id}''),
                (''ZONE_NAME'', zone_name self),
                (''SUBNET_IP_COUNT'', str_int (subnet_ip_count self))]
               (Some ''id''),
             new_step ''create_security_group''
               (''Create security group '' @ quoted (sg_name self))
               ''vpc/security-groups/create-security-group.bru''
               [(''NEW_SG_NAME'', sg_name self), (''VPC_ID'', ''${vpc_id}'')] (Some ''id''),
             new_step ''add_ssh_rule'' ''Add SSH inbound rule (port 22)''
               ''vpc/security-groups/add-rule-ssh.bru''
               [(''SECURITY_GROUP_ID'', ''${sg_id}''), (''SSH_SOURCE_CIDR'', ''0.0.0.0/0'')]
               (Some ''id''),
             new_step ''add_http_rule'' ''Add HTTP inbound rule (port 80)''
               ''vpc/security-groups/add-rule-http.bru''
               [(''SECURITY_GROUP_ID'', ''${sg_id}'')] (Some ''id''),
             new_step ''add_https_rule'' ''Add HTTPS inbound rule (port 443)''
               ''vpc/security-groups/add-rule-https.bru''
               [(''SECURITY_GROUP_ID'', ''${sg_id}'')] (Some ''id''),
             new_step ''add_outbound_rule'' ''Add outbound all rule''
               ''vpc/security-groups/add-rule-outbound-all.bru''
               [(''SECURITY_GROUP_ID'', ''${sg_id}'')] (Some ''id'')];
          self1 = self\<lparr>steps := first_seven\<rparr>
      in if \<not> captured (image_id self) then (Inl ValueError, self1)
         else if \<not> captured (ssh_key_id self) then (Inl ValueError, self1)
         else
           (Inr (),
            self1\<lparr>steps := first_seven @
              [new_step ''create_instance''
                 (''Create instance '' @ quoted (instance_name self) @ '' with profile '' @
                    instance_profile self)
                 ''vpc/instances/create-instance.bru''
                 [(''NEW_INSTANCE_NAME'', instance_name self), (''VPC_ID'', ''${vpc_id}''),
                  (''ZONE_NAME'', zone_name self), (''PROFILE_NAME'', instance_profile self),
                  (''IMAGE_ID'', the (image_id self)), (''SUBNET_ID'', ''${subnet_id}''),
                  (''SECURITY_GROUP_ID'', ''${sg_id}''),
                  (''SSH_KEY_ID'', the (ssh_key_id self))]
                 (Some ''id'')] @
              (if create_floating_ip self
               then [new_step ''create_floating_ip'' ''Create floating IP for external access''
                       ''vpc/floating-ips/create-floating-ip.bru''
                       [(''NEW_FIP_NAME'', instance_name self @ ''-fip''),
                        (''ZONE_NAME'', zone_name self)]
                       (Some ''id'')]
               else [])\<rparr>))"

text \<open>
  \<^verbatim>\<open>_resolve_placeholders\<close>: \<^verbatim>\<open>resolved[key] = ...\<close> for each item of the dictionary,
  starting from the empty dictionary.
\<close>

fun dict_set :: "string \<Rightarrow> string \<Rightarrow> (string \<times> string) list \<Rightarrow> (string \<times> string) list" where
  "dict_set k v [] = [(k, v)]"
| "dict_set k v ((k', v') # kvs) =
     (if k' = k then (k, v) # kvs else (k', v') # dict_set k v kvs)"

definition resolve_value :: "VPCWorkflow \<Rightarrow> string \<Rightarrow> string" where
  "resolve_value self v =
     (if v = ''${vpc_id}'' \<and> captured (vpc_id self) then the (vpc_id self)
      else if v = ''${subnet_id}'' \<and> captured (subnet_id self) then the (subnet_id self)
      else if v = ''${sg_id}'' \<and> captured (sg_id self) then the (sg_id self)
      else if v = ''${instance_id}'' \<and> captured (instance_id self) then the (instance_id self)
      else v)"

definition resolve_placeholders ::
  "VPCWorkflow \<Rightarrow> (string \<times> string) list \<Rightarrow> (string \<times> string) list" where
  "resolve_placeholders self env_vs =
     foldl (\<lambda>resolved (k, v). dict_set k (resolve_value self v) resolved) [] env_vs"

text \<open>
  \<^verbatim>\<open>execute_step\<close>.  The step is an object that the method changes; here the changed step
  is returned, with the result of the method and the changed workflow.  Both \<^verbatim>\<open>except\<close>
  clauses do the same but for the text of the error.
\<close>

definition store_id :: "'a wf_world_scheme \<Rightarrow> string \<Rightarrow> string \<Rightarrow> json \<Rightarrow> VPCWorkflow \<Rightarrow> VPCWorkflow" where
  "store_id w step_name i response self =
     (if step_name = ''create_vpc'' then self\<lparr>vpc_id := Some i\<rparr>
      else if step_name = ''create_subnet'' then self\<lparr>subnet_id := Some i\<rparr>
      else if step_name = ''create_security_group'' then self\<lparr>sg_id := Some i\<rparr>
      else if step_name = ''create_instance'' then self\<lparr>instance_id := Some i\<rparr>
      else if step_name = ''create_floating_ip''
        then self\<lparr>floating_ip_id := Some i,
                floating_ip_address := extract_value w response ''address''\<rparr>
      else self)"

definition execute_step ::
  "'a wf_world_scheme \<Rightarrow> WorkflowStep \<Rightarrow> VPCWorkflow \<Rightarrow> bool \<times> WorkflowStep \<times> VPCWorkflow" where
  "execute_step w step0 self =
     (let step = step0\<lparr>status := ''running''\<rparr>;
          env_vs = resolve_placeholders self (env_vars step)
      in case run_bruno_request w (bru_file step) env_vs self of
           (Inr response, self1) \<Rightarrow>
             (let step1 = step\<lparr>result := Some response, status := ''completed''\<rparr> in
              if captured (extract_id_key step1) then
                (let extracted = extract_value w response (the (extract_id_key step1)) in
                 if captured extracted then
                   (True, step1\<lparr>extracted_id := extracted\<rparr>,
                    store_id w (name step1) (the extracted) response self1)
                 else (True, step1, self1))
              else (True, step1, self1))
         | (Inl (e, text), self1) \<Rightarrow>
             (False, step\<lparr>status := ''failed'', error := Some text\<rparr>, self1))"

text \<open>\<^verbatim>\<open>_print_summary\<close>.\<close>

definition step_icon :: "WorkflowStep \<Rightarrow> icon" where
  "step_icon s =
     (if status s = ''completed'' then IconCompleted
      else if status s = ''failed'' then IconFailed else IconNotRun)"

definition summary_of :: "VPCWorkflow \<Rightarrow> summary" where
  "summary_of self =
     \<lparr>summary_status = upper (workflow_status self),
      steps_completed = length (filter (\<lambda>s. status s = ''completed'') (steps self)),
      steps_total = length (steps self),
      step_lines =
        map (\<lambda>s. (step_icon s, description s,
                   if captured (extracted_id s) then extracted_id s else None,
                   if captured (error s) then error s else None)) (steps self),
      resources_listed = (workflow_status self = ''completed'')\<rparr>"

definition print_summary :: "VPCWorkflow \<Rightarrow> VPCWorkflow" where
  "print_summary self = self\<lparr>printed := printed self @ [summary_of self]\<rparr>"

text \<open>
  \<^verbatim>\<open>execute\<close>.  \<open>run_steps w i\<close> is the loop
  \<^verbatim>\<open>for i, step in enumerate(self.steps, 1)\<close> from index \<open>i\<close> on, over the steps that are
  left; the step that was executed is the object at position \<open>i - 1\<close> of \<^verbatim>\<open>self.steps\<close>,
  whose record is replaced by the changed one.
\<close>

fun run_steps :: "'a wf_world_scheme \<Rightarrow> nat \<Rightarrow> WorkflowStep list \<Rightarrow> VPCWorkflow \<Rightarrow> bool \<times> VPCWorkflow" where
  "run_steps w i [] self = (True, self)"
| "run_steps w i (step # rest) self =
     (case execute_step w step (self\<lparr>current_step_index := i\<rparr>) of
        (success, step', self1) \<Rightarrow>
          (let self2 = self1\<lparr>steps := (steps self1)[i - 1 := step']\<rparr> in
           if \<not> success then (False, print_summary (self2\<lparr>workflow_status := ''failed''\<rparr>))
           else run_steps w (i + 1) rest
                  (if i < length (steps self2) then self2\<lparr>pauses := Suc (pauses self2)\<rparr>
                   else self2)))"

definition execute_steps :: "'a wf_world_scheme \<Rightarrow> VPCWorkflow \<Rightarrow> bool \<times> VPCWorkflow" where
  "execute_steps w self = run_steps w 1 (steps self) self"

definition execute :: "'a wf_world_scheme \<Rightarrow> VPCWorkflow \<Rightarrow> bool \<times> VPCWorkflow" where
  "execute w self0 =
     (case build_steps (self0\<lparr>workflow_status := ''running''\<rparr>) of
        (Inl e, self1) \<Rightarrow> (False, self1\<lparr>workflow_status := ''failed''\<rparr>)
      | (Inr u, self1) \<Rightarrow>
          (case execute_steps w self1 of
             (False, self2) \<Rightarrow> (False, self2)
           | (True, self2) \<Rightarrow> (True, print_summary (self2\<lparr>workflow_status := ''completed''\<rparr>))))"

text \<open>
  Concrete workflows and worlds: the configuration of \<^verbatim>\<open>main()\<close>, which names no image and
  no key, and the same with both; a world in which the third subprocess fails, and one in which
  no response has an \<^verbatim>\<open>id\<close>.
\<close>

definition demo_workflow :: VPCWorkflow where
  "demo_workflow =
     init_workflow ''demo-vpc'' ''demo-subnet'' ''demo-sg'' ''demo-instance'' ''us-south-1'' 256
       ''cx2-2x4'' None None None ''prod'' True"

definition ready_workflow :: VPCWorkflow where
  "ready_workflow =
     init_workflow ''demo-vpc'' ''demo-subnet'' ''demo-sg'' ''demo-instance'' ''us-south-1'' 256
       ''cx2-2x4'' (Some ''r006-image'') (Some ''r006-key'') None ''prod'' True"

definition third_fails :: wf_world where
  "third_fails = \<lparr>auth_ok = (\<lambda>n. True),
     run_result = (\<lambda>n. if n = 2 then Inl CalledProcessError
                        else Inr (JObj [(''id'', JStr ''r006-0001'')])),
     now = (\<lambda>n. 0), failure_text = (\<lambda>n. ''409 Conflict''), py_str = (\<lambda>j. ''?'')\<rparr>"


section \<open>The retrying client: auxiliary facts\<close>

lemma trace_log_event [simp]: "trace (log_event e c) = trace c @ [e]"
  by (simp add: log_event_def)

lemma cfg_log_event [simp]:
  "max_retries (log_event e c) = max_retries c"
  "backoff_factor (log_event e c) = backoff_factor c"
  "max_retry_delay (log_event e c) = max_retry_delay c"
  "initial_retry_delay (log_event e c) = initial_retry_delay c"
  by (simp_all add: log_event_def)

lemma authenticate_cfg:
  assumes "authenticate w force c = (r, c')"
  shows "max_retries c' = max_retries c" "backoff_factor c' = backoff_factor c"
    "max_retry_delay c' = max_retry_delay c" "initial_retry_delay c' = initial_retry_delay c"
  using assms by (auto simp: authenticate_def Let_def split: if_splits)

lemma authenticate_trace:
  assumes "authenticate w force c = (r, c')"
  shows "trace c' = trace c @ [EvAuthenticate force] \<or>
         trace c' = trace c @ [EvAuthenticate force, EvAuthSubprocess]"
  using assms by (auto simp: authenticate_def Let_def split: if_splits)

lemma time_sleep_accepts: "time_sleep w d = None \<longleftrightarrow> 0 \<le> d \<and> d < longest_sleep w"
proof -
  have "0 \<le> d \<Longrightarrow> \<not> d * 10 ^ 9 < - (2 ^ 63)"
  proof -
    assume "0 \<le> d"
    then have "0 \<le> d * 10 ^ 9" by simp
    moreover have "- (2 ^ 63) < (0::real)" by simp
    ultimately show ?thesis by linarith
  qed
  moreover have "2 ^ 63 \<le> d * 10 ^ 9 \<longleftrightarrow> 2 ^ 63 / 10 ^ 9 \<le> d"
    by (simp add: pos_divide_le_eq mult.commute)
  ultimately show ?thesis by (auto simp: time_sleep_def longest_sleep_def)
qed

lemma longest_sleep_bound: "longest_sleep w < 2 ^ 53"
proof -
  have "(2 ^ 63 / 10 ^ 9 :: real) < 2 ^ 53" by simp
  then show ?thesis unfolding longest_sleep_def by (rule min.strict_coboundedI2)
qed

lemma sleep_accepted: "time_sleep w d = None \<Longrightarrow> sleep w d c = (Inr (), log_event (EvSleep d) c)"
  by (simp add: sleep_def)

lemma sleep_refused: "time_sleep w d = Some e \<Longrightarrow> sleep w d c = (Inl e, c)"
  by (simp add: sleep_def)

lemma retry_loop_cases_induct [case_names exit ok backoff sleep_raises last json refresh_failed
    refreshed auth_again other]:
  fixes P :: "int \<Rightarrow> real \<Rightarrow> BrunoClient \<Rightarrow> (exn + json) \<times> BrunoClient \<Rightarrow> bool"
  assumes "\<And>rc d c. \<not> rc \<le> max_retries c \<Longrightarrow> P rc d c (Inl BrunoAPIError, c)"
    and "\<And>rc d c response. rc \<le> max_retries c \<Longrightarrow>
           run_result w (attempts (trace c)) = Inr response \<Longrightarrow>
           P rc d c (Inr response, log_event (EvRun [''auth/get-iam-token.bru'', f]) c)"
    and "\<And>rc d c e. rc < max_retries c \<Longrightarrow>
           run_result w (attempts (trace c)) = Inl e \<Longrightarrow>
           e = CalledProcessError \<or> e = RateLimitError \<Longrightarrow>
           time_sleep w d = None \<Longrightarrow>
           P (rc + 1) (min (d * backoff_factor c) (max_retry_delay c))
             (log_event (EvSleep d) (log_event (EvRun [''auth/get-iam-token.bru'', f]) c))
             (retry_loop w f (rc + 1) (min (d * backoff_factor c) (max_retry_delay c))
                (log_event (EvSleep d) (log_event (EvRun [''auth/get-iam-token.bru'', f]) c))) \<Longrightarrow>
           P rc d c
             (retry_loop w f (rc + 1) (min (d * backoff_factor c) (max_retry_delay c))
                (log_event (EvSleep d) (log_event (EvRun [''auth/get-iam-token.bru'', f]) c)))"
    and "\<And>rc d c e e'. rc < max_retries c \<Longrightarrow>
           run_result w (attempts (trace c)) = Inl e \<Longrightarrow>
           e = CalledProcessError \<or> e = RateLimitError \<Longrightarrow>
           time_sleep w d = Some e' \<Longrightarrow>
           P rc d c (Inl e', log_event (EvRun [''auth/get-iam-token.bru'', f]) c)"
    and "\<And>rc d c e. rc = max_retries c \<Longrightarrow>
           run_result w (attempts (trace c)) = Inl e \<Longrightarrow>
           e = CalledProcessError \<or> e = RateLimitError \<Longrightarrow>
           P rc d c (Inl (if e = CalledProcessError then BrunoAPIError else RateLimitError),
                     log_event (EvRun [''auth/get-iam-token.bru'', f]) c)"
    and "\<And>rc d c. rc \<le> max_retries c \<Longrightarrow>
           run_result w (attempts (trace c)) = Inl JSONDecodeError \<Longrightarrow>
           P rc d c (Inl BrunoAPIError, log_event (EvRun [''auth/get-iam-token.bru'', f]) c)"
    and "\<And>d c e c2. 0 \<le> max_retries c \<Longrightarrow>
           run_result w (attempts (trace c)) = Inl AuthenticationError \<Longrightarrow>
           authenticate w True (log_event (EvRun [''auth/get-iam-token.bru'', f]) c) = (Inl e, c2) \<Longrightarrow>
           P 0 d c (Inl e, c2)"
    and "\<And>d c u c2. 0 \<le> max_retries c \<Longrightarrow>
           run_result w (attempts (trace c)) = Inl AuthenticationError \<Longrightarrow>
           authenticate w True (log_event (EvRun [''auth/get-iam-token.bru'', f]) c) = (Inr u, c2) \<Longrightarrow>
           P 1 d c2 (retry_loop w f 1 d c2) \<Longrightarrow>
           P 0 d c (retry_loop w f 1 d c2)"
    and "\<And>rc d c. rc \<le> max_retries c \<Longrightarrow> rc \<noteq> 0 \<Longrightarrow>
           run_result w (attempts (trace c)) = Inl AuthenticationError \<Longrightarrow>
           P rc d c (Inl AuthenticationError, log_event (EvRun [''auth/get-iam-token.bru'', f]) c)"
    and "\<And>rc d c e. rc \<le> max_retries c \<Longrightarrow>
           run_result w (attempts (trace c)) = Inl e \<Longrightarrow>
           e \<noteq> CalledProcessError \<Longrightarrow> e \<noteq> JSONDecodeError \<Longrightarrow>
           e \<noteq> AuthenticationError \<Longrightarrow> e \<noteq> RateLimitError \<Longrightarrow>
           P rc d c (Inl e, log_event (EvRun [''auth/get-iam-token.bru'', f]) c)"
  shows "P rc d c (retry_loop w f rc d c)"
  using assms
proof (induction w f rc d c rule: retry_loop.induct)
  case (1 w f rc d c)
  let ?c1 = "log_event (EvRun [''auth/get-iam-token.bru'', f]) c"
  let ?c2 = "log_event (EvSleep d) ?c1"
  let ?d' = "min (d * backoff_factor c) (max_retry_delay c)"
  note rules = "1.prems"
  show ?case
  proof (cases "rc \<le> max_retries c")
    case False
    then show ?thesis
      using rules(1)[of rc c d] by (subst retry_loop.simps) simp
  next
    case True
    show ?thesis
    proof (cases "run_result w (attempts (trace c))")
      case (Inr response)
      then show ?thesis
        using True rules(2)[of rc c response d]
        by (subst retry_loop.simps) (simp add: run_bruno_command_def)
    next
      case (Inl e)
      note out = Inl
      have unfold: "retry_loop w f rc d c =
         (case e of
            CalledProcessError \<Rightarrow>
              if rc < max_retries c then
                (case time_sleep w d of
                   Some e' \<Rightarrow> (Inl e', ?c1)
                 | None \<Rightarrow> retry_loop w f (rc + 1) ?d' ?c2)
              else (Inl BrunoAPIError, ?c1)
          | JSONDecodeError \<Rightarrow> (Inl BrunoAPIError, ?c1)
          | AuthenticationError \<Rightarrow>
              if rc = 0 then
                (case authenticate w True ?c1 of
                   (Inl e, c2) \<Rightarrow> (Inl e, c2)
                 | (Inr u, c2) \<Rightarrow> retry_loop w f (rc + 1) d c2)
              else (Inl AuthenticationError, ?c1)
          | RateLimitError \<Rightarrow>
              if rc < max_retries c then
                (case time_sleep w d of
                   Some e' \<Rightarrow> (Inl e', ?c1)
                 | None \<Rightarrow> retry_loop w f (rc + 1) ?d' ?c2)
              else (Inl RateLimitError, ?c1)
          | _ \<Rightarrow> (Inl e, ?c1))"
        using True out
        by (subst retry_loop.simps)
           (simp add: run_bruno_command_def sleep_def split: exn.splits option.splits)
      have run: "(Inl e, ?c1) = run_bruno_command w [''auth/get-iam-token.bru'', f] c"
        using out by (simp add: run_bruno_command_def)
      show ?thesis
      proof (cases "e = CalledProcessError \<or> e = RateLimitError")
        case backoff_kind: True
        show ?thesis
        proof (cases "rc < max_retries c")
          case lt: True
          then have lt1: "rc < max_retries ?c1" by simp
          show ?thesis
          proof (cases "time_sleep w d")
            case None
            have sl: "(Inr (), ?c2) = sleep w d ?c1"
              using None by (simp add: sleep_def)
            have IH: "P (rc + 1) ?d' ?c2 (retry_loop w f (rc + 1) ?d' ?c2)"
              using backoff_kind
            proof
              assume e: "e = CalledProcessError"
              have "P (rc + 1) (min (d * backoff_factor ?c2) (max_retry_delay ?c2)) ?c2
                      (retry_loop w f (rc + 1)
                         (min (d * backoff_factor ?c2) (max_retry_delay ?c2)) ?c2)"
                by (rule "1.IH"(1)[OF True run refl e lt1 sl refl]) (fact rules)+
              then show ?thesis by simp
            next
              assume e: "e = RateLimitError"
              have "P (rc + 1) (min (d * backoff_factor ?c2) (max_retry_delay ?c2)) ?c2
                      (retry_loop w f (rc + 1)
                         (min (d * backoff_factor ?c2) (max_retry_delay ?c2)) ?c2)"
                by (rule "1.IH"(3)[OF True run refl e lt1 sl refl]) (fact rules)+
              then show ?thesis by simp
            qed
            show ?thesis
              using rules(3)[OF lt out backoff_kind None IH] backoff_kind lt unfold None by auto
          next
            case (Some e')
            show ?thesis
              using rules(4)[OF lt out backoff_kind Some] backoff_kind lt unfold Some by auto
          qed
        next
          case False
          with True have "rc = max_retries c" by simp
          then show ?thesis
            using rules(5)[OF _ out backoff_kind, of rc d] backoff_kind unfold by auto
        qed
      next
        case not_backoff: False
        show ?thesis
        proof (cases "e = AuthenticationError")
          case auth: True
          show ?thesis
          proof (cases "rc = 0")
            case rc0: True
            obtain x c2 where a: "authenticate w True ?c1 = (x, c2)"
              by (cases "authenticate w True ?c1")
            show ?thesis
            proof (cases x)
              case (Inl e')
              then show ?thesis
                using rules(7)[of c e' c2 d] True rc0 Inl out auth a unfold by simp
            next
              case (Inr u)
              have IH: "P 1 d c2 (retry_loop w f 1 d c2)"
                using "1.IH"(2)[OF True run refl auth rc0 a[symmetric] Inr] rules rc0 by simp
              show ?thesis
                using rules(8)[of c u c2 d] IH True rc0 out auth a Inr unfold by simp
            qed
          next
            case False
            then show ?thesis
              using rules(9)[of rc c d] True out auth unfold by simp
          qed
        next
          case False
          then show ?thesis
            using rules(6)[of rc c d] rules(10)[of rc c e d] True out not_backoff unfold
            by (cases e) simp_all
        qed
      qed
    qed
  qed
qed

lemma delay_after_closed:
  "d \<le> mx \<Longrightarrow> 0 \<le> f \<Longrightarrow> delay_after f mx d k = min (d * f ^ k) mx"
proof (induction k arbitrary: d)
  case 0
  then show ?case by simp
next
  case (Suc k)
  let ?e = "min (d * f) mx"
  have e: "?e \<le> mx" by simp
  have IH: "delay_after f mx ?e k = min (?e * f ^ k) mx"
    using Suc.IH[OF e Suc.prems(2)] .
  have "min (?e * f ^ k) mx = min (d * f * f ^ k) mx"
  proof (cases "d * f \<le> mx")
    case True
    then show ?thesis by (simp add: min_def)
  next
    case False
    then have gt: "mx < d * f" by simp
    then have e_eq: "?e = mx" by simp
    have "d < d * f" using gt Suc.prems(1) by simp
    then have "d * 1 < d * f" by simp
    then consider (a) "0 < d" "1 < f" | (b) "d < 0" "f < 1"
      unfolding mult_less_cancel_left by auto
    then have "mx \<le> mx * f ^ k \<and> d * f \<le> d * f * f ^ k"
    proof cases
      case a
      have "1 \<le> f ^ k" using a by (simp add: one_le_power)
      moreover have "0 \<le> mx" using a Suc.prems(1) by simp
      moreover have "0 \<le> d * f" using a by simp
      ultimately show ?thesis
        using mult_left_mono[of 1 "f ^ k" mx] mult_left_mono[of 1 "f ^ k" "d * f"] by simp
    next
      case b
      have "f ^ k \<le> 1" using b Suc.prems(2) by (simp add: power_le_one)
      moreover have "d * f \<le> 0" using b Suc.prems(2) by (simp add: mult_le_0_iff)
      moreover have "mx \<le> 0" using gt \<open>d * f \<le> 0\<close> by simp
      ultimately show ?thesis
        using mult_left_mono_neg[of "f ^ k" 1 mx] mult_left_mono_neg[of "f ^ k" 1 "d * f"]
        by simp
    qed
    then have "mx \<le> mx * f ^ k" "mx \<le> d * f * f ^ k" using gt by linarith+
    then show ?thesis unfolding e_eq by (simp add: min_def)
  qed
  then show ?case using IH by (simp add: mult.assoc)
qed

lemma delay_after_mono_arg:
  "0 \<le> f \<Longrightarrow> d \<le> d' \<Longrightarrow> delay_after f mx d k \<le> delay_after f mx d' k"
proof (induction k arbitrary: d d')
  case 0
  then show ?case by simp
next
  case (Suc k)
  have "d * f \<le> d' * f" using Suc.prems by (simp add: mult_right_mono)
  then have "min (d * f) mx \<le> min (d' * f) mx" by (simp add: min_def)
  then show ?case using Suc.IH[OF Suc.prems(1)] by simp
qed

lemma delay_after_capped:
  "d \<le> mx \<Longrightarrow> delay_after f mx d k \<le> mx"
  by (induction k arbitrary: d) simp_all

lemma delay_after_step_le:
  assumes "0 \<le> d" "d \<le> mx" "1 \<le> f"
  shows "delay_after f mx d k \<le> delay_after f mx d (Suc k)"
proof -
  have "d * 1 \<le> d * f" using assms by (intro mult_left_mono) simp_all
  then have "d \<le> min (d * f) mx" using assms by simp
  then show ?thesis using delay_after_mono_arg[of f d "min (d * f) mx" mx k] assms by simp
qed

lemma sorted_map_upt:
  assumes "\<And>k. g k \<le> (g (Suc k) :: real)"
  shows "sorted (map g [0..<n])"
proof -
  have "\<And>i j. i \<le> j \<Longrightarrow> g i \<le> g j"
    using assms by (rule lift_Suc_mono_le)
  then show ?thesis by (simp add: sorted_iff_nth_mono)
qed


lemma authenticate_forced:
  assumes "authenticate w True c = (r, c')"
  shows "trace c' = trace c @ [EvAuthenticate True, EvAuthSubprocess]"
  using assms by (auto simp: authenticate_def Let_def split: if_splits)

lemma slept_delays_append [simp]: "slept_delays (xs @ ys) = slept_delays xs @ slept_delays ys"
  by (simp add: slept_delays_def)

lemma slept_delays_simps [simp]:
  "slept_delays [] = []"
  "slept_delays (EvSleep d # es) = d # slept_delays es"
  "slept_delays (EvRun fs # es) = slept_delays es"
  "slept_delays (EvAuthenticate b # es) = slept_delays es"
  "slept_delays (EvAuthSubprocess # es) = slept_delays es"
  by (simp_all add: slept_delays_def)

lemma forced_refreshes_append [simp]:
  "forced_refreshes (xs @ ys) = forced_refreshes xs + forced_refreshes ys"
  by (simp add: forced_refreshes_def)

lemma forced_refreshes_simps [simp]:
  "forced_refreshes [] = 0"
  "forced_refreshes (EvSleep d # es) = forced_refreshes es"
  "forced_refreshes (EvRun fs # es) = forced_refreshes es"
  "forced_refreshes (EvAuthenticate b # es) = (if b then 1 else 0) + forced_refreshes es"
  "forced_refreshes (EvAuthSubprocess # es) = forced_refreshes es"
  by (simp_all add: forced_refreshes_def)

lemma attempts_append [simp]: "attempts (xs @ ys) = attempts xs + attempts ys"
  by (simp add: attempts_def)

lemma attempts_simps [simp]:
  "attempts [] = 0"
  "attempts (EvSleep d # es) = attempts es"
  "attempts (EvRun fs # es) = Suc (attempts es)"
  "attempts (EvAuthenticate b # es) = attempts es"
  "attempts (EvAuthSubprocess # es) = attempts es"
  by (simp_all add: attempts_def)

lemma map_delay_after_Suc:
  "d # map (delay_after f mx (min (d * f) mx)) [0..<n] = map (delay_after f mx d) [0..<Suc n]"
  by (simp add: map_upt_Suc del: upt_Suc)


lemma delay_after_nonneg:
  "0 \<le> d \<Longrightarrow> 0 \<le> f \<Longrightarrow> 0 \<le> mx \<Longrightarrow> 0 \<le> delay_after f mx d k"
proof (induction k arbitrary: d)
  case 0
  then show ?case by simp
next
  case (Suc k)
  have "0 \<le> min (d * f) mx" using Suc.prems by simp
  then show ?case using Suc.IH[OF _ Suc.prems(2,3)] by simp
qed

lemma retry_loop_events:
  "\<exists>es n. trace (snd (retry_loop w f rc d c)) = trace c @ es \<and>
     max_retries (snd (retry_loop w f rc d c)) = max_retries c \<and>
     backoff_factor (snd (retry_loop w f rc d c)) = backoff_factor c \<and>
     max_retry_delay (snd (retry_loop w f rc d c)) = max_retry_delay c \<and>
     slept_delays es = map (delay_after (backoff_factor c) (max_retry_delay c) d) [0..<n] \<and>
     forced_refreshes es \<le> (if rc \<le> 0 then 1 else 0)"
proof (rule retry_loop_cases_induct[where P = "\<lambda>rc d c res.
     \<exists>es n. trace (snd res) = trace c @ es \<and>
     max_retries (snd res) = max_retries c \<and>
     backoff_factor (snd res) = backoff_factor c \<and>
     max_retry_delay (snd res) = max_retry_delay c \<and>
     slept_delays es = map (delay_after (backoff_factor c) (max_retry_delay c) d) [0..<n] \<and>
     forced_refreshes es \<le> (if rc \<le> 0 then 1 else 0)"], goal_cases)
  case (1 rc d c)
  show ?case by (intro exI[of _ "[]"] exI[of _ 0]) simp
next
  case (2 rc d c response)
  show ?case by (intro exI[of _ "[EvRun [''auth/get-iam-token.bru'', f]]"] exI[of _ 0]) simp
next
  case (3 rc d c e)
  from 3(5) obtain es n where es:
    "trace (snd (retry_loop w f (rc + 1) (min (d * backoff_factor c) (max_retry_delay c))
        (log_event (EvSleep d) (log_event (EvRun [''auth/get-iam-token.bru'', f]) c)))) =
     trace c @ [EvRun [''auth/get-iam-token.bru'', f], EvSleep d] @ es"
    "max_retries (snd (retry_loop w f (rc + 1) (min (d * backoff_factor c) (max_retry_delay c))
        (log_event (EvSleep d) (log_event (EvRun [''auth/get-iam-token.bru'', f]) c)))) =
     max_retries c"
    "backoff_factor (snd (retry_loop w f (rc + 1) (min (d * backoff_factor c) (max_retry_delay c))
        (log_event (EvSleep d) (log_event (EvRun [''auth/get-iam-token.bru'', f]) c)))) =
     backoff_factor c"
    "max_retry_delay (snd (retry_loop w f (rc + 1) (min (d * backoff_factor c) (max_retry_delay c))
        (log_event (EvSleep d) (log_event (EvRun [''auth/get-iam-token.bru'', f]) c)))) =
     max_retry_delay c"
    "slept_delays es = map (delay_after (backoff_factor c) (max_retry_delay c)
        (min (d * backoff_factor c) (max_retry_delay c))) [0..<n]"
    "forced_refreshes es \<le> (if rc + 1 \<le> 0 then 1 else 0)"
    by auto
  show ?case
    apply (intro exI[of _ "[EvRun [''auth/get-iam-token.bru'', f], EvSleep d] @ es"]
        exI[of _ "Suc n"])
    using es map_delay_after_Suc[of d "backoff_factor c" "max_retry_delay c" n]
    apply (simp del: upt_Suc split: if_splits)
    done
next
  case (4 rc d c e e')
  show ?case by (intro exI[of _ "[EvRun [''auth/get-iam-token.bru'', f]]"] exI[of _ 0]) simp
next
  case (5 rc d c e)
  show ?case by (intro exI[of _ "[EvRun [''auth/get-iam-token.bru'', f]]"] exI[of _ 0]) simp
next
  case (6 rc d c)
  show ?case by (intro exI[of _ "[EvRun [''auth/get-iam-token.bru'', f]]"] exI[of _ 0]) simp
next
  case (7 d c e c2)
  show ?case
    using authenticate_forced[OF 7(3)] authenticate_cfg[OF 7(3)]
    by (intro exI[of _ "[EvRun [''auth/get-iam-token.bru'', f], EvAuthenticate True,
          EvAuthSubprocess]"] exI[of _ 0]) simp
next
  case (8 d c u c2)
  from 8(4) obtain es n where es:
    "trace (snd (retry_loop w f 1 d c2)) = trace c2 @ es"
    "max_retries (snd (retry_loop w f 1 d c2)) = max_retries c2"
    "backoff_factor (snd (retry_loop w f 1 d c2)) = backoff_factor c2"
    "max_retry_delay (snd (retry_loop w f 1 d c2)) = max_retry_delay c2"
    "slept_delays es = map (delay_after (backoff_factor c2) (max_retry_delay c2) d) [0..<n]"
    "forced_refreshes es \<le> 0"
    by auto
  show ?case
    using authenticate_forced[OF 8(3)] authenticate_cfg[OF 8(3)] es
    by (intro exI[of _ "[EvRun [''auth/get-iam-token.bru'', f], EvAuthenticate True,
          EvAuthSubprocess] @ es"] exI[of _ n]) simp
next
  case (9 rc d c)
  show ?case by (intro exI[of _ "[EvRun [''auth/get-iam-token.bru'', f]]"] exI[of _ 0]) simp
next
  case (10 rc d c e)
  show ?case by (intro exI[of _ "[EvRun [''auth/get-iam-token.bru'', f]]"] exI[of _ 0]) simp
qed

lemma authenticate_events:
  assumes "authenticate w force c = (r, c')"
  shows "\<exists>es. trace c' = trace c @ es \<and> slept_delays es = [] \<and> attempts es = 0 \<and>
           forced_refreshes es = (if force then 1 else 0)"
  using assms by (auto simp: authenticate_def Let_def split: if_splits)

lemma always_failing_accepts [simp]:
  "time_sleep always_failing 100 = None" "time_sleep always_failing 60 = None"
  "time_sleep always_failing 1 = None" "time_sleep always_failing 2 = None"
  "time_sleep always_failing 4 = None" "time_sleep always_failing (- 1) = Some ValueError"
  by (simp_all add: time_sleep_def always_failing_def)

lemma eager_client_run:
  "call_events eager_client
     (snd (request_with_retry always_failing ''vpc/list-vpcs.bru'' eager_client)) =
   [EvAuthenticate False, EvAuthSubprocess,
    EvRun [''auth/get-iam-token.bru'', ''vpc/list-vpcs.bru''], EvSleep 100,
    EvRun [''auth/get-iam-token.bru'', ''vpc/list-vpcs.bru''], EvSleep 60,
    EvRun [''auth/get-iam-token.bru'', ''vpc/list-vpcs.bru'']]"
proof -
  have [simp]: "run_result always_failing n = Inl CalledProcessError"
    "auth_ok always_failing n" for n
    by (simp_all add: always_failing_def)
  show ?thesis
    by (simp add: request_with_retry_def authenticate_def should_refresh_token_def Let_def
        retry_loop.simps run_bruno_command_def sleep_def log_event_def call_events_def
        eager_client_def attempts_def)
qed

lemma negative_delay_run:
  "request_with_retry always_failing ''vpc/list-vpcs.bru'' negative_delay_client =
     (Inl ValueError,
      negative_delay_client\<lparr>last_auth_time := Some 0, token_expires_at := Some 3600,
        trace := [EvAuthenticate False, EvAuthSubprocess,
                  EvRun [''auth/get-iam-token.bru'', ''vpc/list-vpcs.bru'']]\<rparr>)"
proof -
  have [simp]: "run_result always_failing n = Inl CalledProcessError"
    "auth_ok always_failing n" "now always_failing n = 0" for n
    by (simp_all add: always_failing_def)
  show ?thesis
    by (simp add: request_with_retry_def authenticate_def should_refresh_token_def Let_def
        retry_loop.simps run_bruno_command_def sleep_def log_event_def
        negative_delay_client_def attempts_def)
qed

lemma cli_down_run:
  "request_with_retry cli_down ''vpc/list-vpcs.bru'' default_client =
     (Inl AuthenticationError,
      default_client\<lparr>trace := [EvAuthenticate False, EvAuthSubprocess]\<rparr>)"
  by (simp add: request_with_retry_def authenticate_def should_refresh_token_def Let_def
      log_event_def default_client_def cli_down_def)

lemma authenticate_ok_events:
  assumes "authenticate w False c = (Inr u, c1)"
  shows "attempts (trace c1) = attempts (trace c)"
  using authenticate_events[OF assms] by auto

lemma retry_loop_all_transport:
  assumes "\<And>n. run_result w n = Inl CalledProcessError"
  shows "rc \<le> max_retries c \<and> time_sleep w d = None \<and>
         time_sleep w (max_retry_delay c) = None \<and> 0 \<le> backoff_factor c \<longrightarrow>
         fst (retry_loop w f rc d c) = Inl BrunoAPIError \<and>
         attempts (trace (snd (retry_loop w f rc d c))) =
           attempts (trace c) + nat (max_retries c - rc) + 1"
proof (rule retry_loop_cases_induct[where P = "\<lambda>rc d c res.
         rc \<le> max_retries c \<and> time_sleep w d = None \<and>
         time_sleep w (max_retry_delay c) = None \<and> 0 \<le> backoff_factor c \<longrightarrow>
         fst res = Inl BrunoAPIError \<and>
         attempts (trace (snd res)) = attempts (trace c) + nat (max_retries c - rc) + 1"],
    goal_cases)
  case (3 rc d c e)
  let ?d' = "min (d * backoff_factor c) (max_retry_delay c)"
  show ?case
  proof (intro impI)
    assume h: "rc \<le> max_retries c \<and> time_sleep w d = None \<and>
         time_sleep w (max_retry_delay c) = None \<and> 0 \<le> backoff_factor c"
    then have "0 \<le> d" "0 \<le> max_retry_delay c" "max_retry_delay c < longest_sleep w"
      "0 \<le> backoff_factor c"
      by (simp_all add: time_sleep_accepts)
    then have "0 \<le> ?d'" "?d' < longest_sleep w" by simp_all
    then have "time_sleep w ?d' = None" by (simp add: time_sleep_accepts)
    then show "fst (retry_loop w f (rc + 1) ?d'
          (log_event (EvSleep d) (log_event (EvRun [''auth/get-iam-token.bru'', f]) c))) =
        Inl BrunoAPIError \<and>
      attempts (trace (snd (retry_loop w f (rc + 1) ?d'
          (log_event (EvSleep d) (log_event (EvRun [''auth/get-iam-token.bru'', f]) c))))) =
        attempts (trace c) + nat (max_retries c - rc) + 1"
      using 3 h by (auto simp: nat_diff_distrib nat_add_distrib)
  qed
next
  case (4 rc d c e e')
  then show ?case by auto
next
  case (5 rc d c e)
  then show ?case using assms by auto
qed (use assms in auto)

lemma sleep_after_attempt_skip [simp]:
  "sleep_after_attempt (EvAuthenticate b # es) k = sleep_after_attempt es k"
  "sleep_after_attempt (EvAuthSubprocess # es) k = sleep_after_attempt es k"
  "sleep_after_attempt (EvSleep d # es) k = sleep_after_attempt es k"
  by simp_all

lemma sleep_after_attempt_no_runs:
  "attempts es0 = 0 \<Longrightarrow> sleep_after_attempt (es0 @ es) k = sleep_after_attempt es k"
proof (induction es0)
  case Nil
  then show ?case by simp
next
  case (Cons e es0)
  then show ?case by (cases e) simp_all
qed

lemma retry_loop_sleep_after:
  "\<forall>k. rc + int k < max_retries c \<and>
       (\<forall>i\<le>k. backoff_failure (run_result w (attempts (trace c) + i))) \<and>
       (\<forall>i\<le>k. time_sleep w (delay_after (backoff_factor c) (max_retry_delay c) d i) = None)
       \<longrightarrow>
       sleep_after_attempt (drop (length (trace c)) (trace (snd (retry_loop w f rc d c)))) k =
         Some (delay_after (backoff_factor c) (max_retry_delay c) d k)"
proof (rule retry_loop_cases_induct[where P = "\<lambda>rc d c res.
     \<forall>k. rc + int k < max_retries c \<and>
       (\<forall>i\<le>k. backoff_failure (run_result w (attempts (trace c) + i))) \<and>
       (\<forall>i\<le>k. time_sleep w (delay_after (backoff_factor c) (max_retry_delay c) d i) = None)
       \<longrightarrow>
       sleep_after_attempt (drop (length (trace c)) (trace (snd res))) k =
         Some (delay_after (backoff_factor c) (max_retry_delay c) d k)"], goal_cases)
  case (1 rc d c)
  then show ?case by auto
next
  case (2 rc d c response)
  then show ?case by (auto simp: backoff_failure_def)
next
  case (3 rc d c e)
  let ?c1 = "log_event (EvSleep d) (log_event (EvRun [''auth/get-iam-token.bru'', f]) c)"
  let ?d' = "min (d * backoff_factor c) (max_retry_delay c)"
  let ?res = "retry_loop w f (rc + 1) ?d' ?c1"
  from retry_loop_events[of w f "rc + 1" ?d' ?c1] obtain es where es:
    "trace (snd ?res) = trace c @ [EvRun [''auth/get-iam-token.bru'', f], EvSleep d] @ es"
    by auto
  have dr: "drop (length (trace c)) (trace (snd ?res)) =
            EvRun [''auth/get-iam-token.bru'', f] # EvSleep d # es"
    "drop (length (trace ?c1)) (trace (snd ?res)) = es"
    using es by simp_all
  show ?case
  proof (intro allI impI)
    fix k
    assume h: "rc + int k < max_retries c \<and>
       (\<forall>i\<le>k. backoff_failure (run_result w (attempts (trace c) + i))) \<and>
       (\<forall>i\<le>k. time_sleep w (delay_after (backoff_factor c) (max_retry_delay c) d i) = None)"
    show "sleep_after_attempt (drop (length (trace c)) (trace (snd ?res))) k =
         Some (delay_after (backoff_factor c) (max_retry_delay c) d k)"
    proof (cases k)
      case 0
      then show ?thesis unfolding dr by simp
    next
      case (Suc k')
      have "rc + 1 + int k' < max_retries ?c1" using h Suc by simp
      moreover have "\<forall>i\<le>k'. backoff_failure (run_result w (attempts (trace ?c1) + i))"
      proof (intro allI impI)
        fix i assume "i \<le> k'"
        then have "Suc i \<le> k" using Suc by simp
        with h have "backoff_failure (run_result w (attempts (trace c) + Suc i))" by blast
        then show "backoff_failure (run_result w (attempts (trace ?c1) + i))" by simp
      qed
      moreover have "\<forall>i\<le>k'. time_sleep w
          (delay_after (backoff_factor ?c1) (max_retry_delay ?c1) ?d' i) = None"
      proof (intro allI impI)
        fix i assume "i \<le> k'"
        then have "Suc i \<le> k" using Suc by simp
        with h have "time_sleep w
            (delay_after (backoff_factor c) (max_retry_delay c) d (Suc i)) = None" by blast
        then show "time_sleep w
            (delay_after (backoff_factor ?c1) (max_retry_delay ?c1) ?d' i) = None" by simp
      qed
      ultimately have "sleep_after_attempt (drop (length (trace ?c1)) (trace (snd ?res))) k' =
          Some (delay_after (backoff_factor ?c1) (max_retry_delay ?c1) ?d' k')"
        using 3(5) by blast
      then show ?thesis unfolding dr using Suc by simp
    qed
  qed
next
  case (4 rc d c e e')
  have "\<not> (\<forall>i\<le>k. time_sleep w
      (delay_after (backoff_factor c) (max_retry_delay c) d i) = None)" for k
    using 4(4) by (auto intro: exI[of _ 0])
  then show ?case by blast
next
  case (5 rc d c e)
  then show ?case by auto
next
  case (6 rc d c)
  then show ?case by (auto simp: backoff_failure_def)
next
  case (7 d c e c2)
  then show ?case by (auto simp: backoff_failure_def)
next
  case (8 d c u c2)
  then show ?case by (auto simp: backoff_failure_def)
next
  case (9 rc d c)
  then show ?case by (auto simp: backoff_failure_def)
next
  case (10 rc d c e)
  then show ?case by (auto simp: backoff_failure_def)
qed

lemma retry_loop_late_auth_failure:
  "\<forall>i. 1 \<le> rc + int i \<and>
       i < attempts (trace (snd (retry_loop w f rc d c))) - attempts (trace c) \<and>
       run_result w (attempts (trace c) + i) = Inl AuthenticationError \<longrightarrow>
       fst (retry_loop w f rc d c) = Inl AuthenticationError \<and>
       attempts (trace (snd (retry_loop w f rc d c))) = attempts (trace c) + i + 1 \<and>
       (\<exists>es. trace (snd (retry_loop w f rc d c)) =
          trace c @ es @ [EvRun [''auth/get-iam-token.bru'', f]])"
proof (rule retry_loop_cases_induct[where P = "\<lambda>rc d c res.
     \<forall>i. 1 \<le> rc + int i \<and>
       i < attempts (trace (snd res)) - attempts (trace c) \<and>
       run_result w (attempts (trace c) + i) = Inl AuthenticationError \<longrightarrow>
       fst res = Inl AuthenticationError \<and>
       attempts (trace (snd res)) = attempts (trace c) + i + 1 \<and>
       (\<exists>es. trace (snd res) = trace c @ es @ [EvRun [''auth/get-iam-token.bru'', f]])"],
    goal_cases)
  case (1 rc d c)
  then show ?case by auto
next
  case (2 rc d c response)
  then show ?case by auto
next
  case (3 rc d c e)
  let ?c1 = "log_event (EvSleep d) (log_event (EvRun [''auth/get-iam-token.bru'', f]) c)"
  let ?res = "retry_loop w f (rc + 1) (min (d * backoff_factor c) (max_retry_delay c)) ?c1"
  have a1: "attempts (trace ?c1) = Suc (attempts (trace c))" by simp
  show ?case
  proof (intro allI impI)
    fix i
    assume h: "1 \<le> rc + int i \<and> i < attempts (trace (snd ?res)) - attempts (trace c) \<and>
       run_result w (attempts (trace c) + i) = Inl AuthenticationError"
    then obtain i' where i: "i = Suc i'"
      using 3(2,3) by (cases i) auto
    have "1 \<le> rc + 1 + int i' \<and> i' < attempts (trace (snd ?res)) - attempts (trace ?c1) \<and>
       run_result w (attempts (trace ?c1) + i') = Inl AuthenticationError"
      using h i a1 by auto
    then have r: "fst ?res = Inl AuthenticationError"
      "attempts (trace (snd ?res)) = attempts (trace ?c1) + i' + 1"
      "\<exists>es. trace (snd ?res) = trace ?c1 @ es @ [EvRun [''auth/get-iam-token.bru'', f]]"
      using 3(5) by blast+
    from r(3) obtain es where
      "trace (snd ?res) = trace c @ ([EvRun [''auth/get-iam-token.bru'', f], EvSleep d] @ es) @
         [EvRun [''auth/get-iam-token.bru'', f]]"
      by auto
    then have "\<exists>es. trace (snd ?res) = trace c @ es @ [EvRun [''auth/get-iam-token.bru'', f]]"
      by blast
    then show "fst ?res = Inl AuthenticationError \<and>
       attempts (trace (snd ?res)) = attempts (trace c) + i + 1 \<and>
       (\<exists>es. trace (snd ?res) = trace c @ es @ [EvRun [''auth/get-iam-token.bru'', f]])"
      using r(1,2) i a1 by simp
  qed
next
  case (4 rc d c e e')
  then show ?case by auto
next
  case (5 rc d c e)
  then show ?case by auto
next
  case (6 rc d c)
  then show ?case by auto
next
  case (7 d c e c2)
  then show ?case using authenticate_forced[OF 7(3)] by auto
next
  case (8 d c u c2)
  let ?res = "retry_loop w f 1 d c2"
  note tr = authenticate_forced[OF 8(3)]
  have a1: "attempts (trace c2) = Suc (attempts (trace c))" using tr by simp
  show ?case
  proof (intro allI impI)
    fix i
    assume h: "1 \<le> 0 + int i \<and> i < attempts (trace (snd ?res)) - attempts (trace c) \<and>
       run_result w (attempts (trace c) + i) = Inl AuthenticationError"
    then obtain i' where i: "i = Suc i'" by (cases i) auto
    have "1 \<le> 1 + int i' \<and> i' < attempts (trace (snd ?res)) - attempts (trace c2) \<and>
       run_result w (attempts (trace c2) + i') = Inl AuthenticationError"
      using h i a1 by auto
    then have r: "fst ?res = Inl AuthenticationError"
      "attempts (trace (snd ?res)) = attempts (trace c2) + i' + 1"
      "\<exists>es. trace (snd ?res) = trace c2 @ es @ [EvRun [''auth/get-iam-token.bru'', f]]"
      using 8(4) by blast+
    from r(3) tr obtain es where
      "trace (snd ?res) = trace c @ ([EvRun [''auth/get-iam-token.bru'', f],
         EvAuthenticate True, EvAuthSubprocess] @ es) @ [EvRun [''auth/get-iam-token.bru'', f]]"
      by auto
    then have "\<exists>es. trace (snd ?res) = trace c @ es @ [EvRun [''auth/get-iam-token.bru'', f]]"
      by blast
    then show "fst ?res = Inl AuthenticationError \<and>
       attempts (trace (snd ?res)) = attempts (trace c) + i + 1 \<and>
       (\<exists>es. trace (snd ?res) = trace c @ es @ [EvRun [''auth/get-iam-token.bru'', f]])"
      using r(1,2) i a1 by simp
  qed
next
  case (9 rc d c)
  then show ?case by auto
next
  case (10 rc d c e)
  then show ?case by auto
qed

lemma retry_loop_first_auth_failure:
  "rc = 0 \<and> run_result w (attempts (trace c)) = Inl AuthenticationError \<and>
   attempts (trace c) < attempts (trace (snd (retry_loop w f rc d c))) \<longrightarrow>
   1 \<le> forced_refreshes (drop (length (trace c)) (trace (snd (retry_loop w f rc d c))))"
proof (rule retry_loop_cases_induct[where P = "\<lambda>rc d c res.
   rc = 0 \<and> run_result w (attempts (trace c)) = Inl AuthenticationError \<and>
   attempts (trace c) < attempts (trace (snd res)) \<longrightarrow>
   1 \<le> forced_refreshes (drop (length (trace c)) (trace (snd res)))"], goal_cases)
  case (7 d c e c2)
  then show ?case using authenticate_forced[OF 7(3)] by auto
next
  case (8 d c u c2)
  from retry_loop_events[of w f 1 d c2] obtain es where
    "trace (snd (retry_loop w f 1 d c2)) = trace c2 @ es" by auto
  then show ?case using authenticate_forced[OF 8(3)] by auto
qed auto

lemma expired_token_run:
  "call_events default_client
     (snd (request_with_retry expired_token ''vpc/list-vpcs.bru'' default_client)) =
   [EvAuthenticate False, EvAuthSubprocess,
    EvRun [''auth/get-iam-token.bru'', ''vpc/list-vpcs.bru''],
    EvAuthenticate True, EvAuthSubprocess,
    EvRun [''auth/get-iam-token.bru'', ''vpc/list-vpcs.bru'']]"
  by (simp add: request_with_retry_def authenticate_def should_refresh_token_def Let_def
      retry_loop.simps run_bruno_command_def log_event_def call_events_def
      default_client_def expired_token_def attempts_def)

section \<open>The retrying client: claims\<close>

text \<open>
  Claim C9, as amended.  For every retry configuration with
  \<open>0 \<le> initial_retry_delay \<le> max_retry_delay\<close> and \<open>1 \<le> backoff_factor\<close>, and for every
  behaviour of the outside world, the backoff delays slept during one call of
  \<^verbatim>\<open>request_with_retry\<close> are non-decreasing and each is at most \<open>max_retry_delay\<close>.
\<close>

theorem backoff_delays_sorted_capped:
  assumes "0 \<le> initial_retry_delay c" and "initial_retry_delay c \<le> max_retry_delay c"
    and "1 \<le> backoff_factor c"
  shows "sorted (slept_delays (call_events c (snd (request_with_retry w f c)))) \<and>
         (\<forall>d \<in> set (slept_delays (call_events c (snd (request_with_retry w f c)))).
            d \<le> max_retry_delay c)"
proof -
  obtain r c1 where a: "authenticate w False c = (r, c1)"
    by (cases "authenticate w False c")
  from authenticate_events[OF a] obtain es0 where es0:
    "trace c1 = trace c @ es0" "slept_delays es0 = []" by auto
  note cfg = authenticate_cfg[OF a]
  let ?g = "delay_after (backoff_factor c) (max_retry_delay c) (initial_retry_delay c)"
  have mono: "sorted (map ?g [0..<n])" for n
    by (rule sorted_map_upt) (rule delay_after_step_le[OF assms])
  have cap: "\<forall>d \<in> set (map ?g [0..<n]). d \<le> max_retry_delay c" for n
    using delay_after_capped[OF assms(2)] by simp
  show ?thesis
  proof (cases r)
    case (Inl e)
    then have "call_events c (snd (request_with_retry w f c)) = es0"
      using a es0 by (simp add: request_with_retry_def call_events_def)
    then show ?thesis using es0 by simp
  next
    case (Inr u)
    from retry_loop_events[of w f 0 "initial_retry_delay c1" c1] obtain es n where es:
      "trace (snd (retry_loop w f 0 (initial_retry_delay c1) c1)) = trace c1 @ es"
      "slept_delays es = map ?g [0..<n]"
      using cfg by auto
    have "call_events c (snd (request_with_retry w f c)) = es0 @ es"
      using a Inr es0 es by (simp add: request_with_retry_def call_events_def)
    then show ?thesis using es0 es(2) mono[of n] cap[of n] by simp
  qed
qed

theorem backoff_delays_sorted_capped_witness:
  "0 \<le> initial_retry_delay default_client \<and>
   initial_retry_delay default_client \<le> max_retry_delay default_client \<and>
   1 \<le> backoff_factor default_client \<and>
   sorted (slept_delays (call_events default_client
     (snd (request_with_retry always_failing ''vpc/list-vpcs.bru'' default_client)))) \<and>
   list_all (\<lambda>d. d \<le> max_retry_delay default_client)
     (slept_delays (call_events default_client
       (snd (request_with_retry always_failing ''vpc/list-vpcs.bru'' default_client))))"
  using backoff_delays_sorted_capped[of default_client always_failing "''vpc/list-vpcs.bru''"]
  by (simp add: default_client_def list_all_iff)


text \<open>
  Claim C9 as stated (for every configuration) fails: with an initial delay of 100 and a maximum
  delay of 60 the first delay slept is 100, above the maximum, and the second is 60.
\<close>

theorem backoff_delays_sorted_capped_counterexample:
  "\<not> sorted (slept_delays (call_events eager_client
       (snd (request_with_retry always_failing ''vpc/list-vpcs.bru'' eager_client)))) \<and>
   \<not> hd (slept_delays (call_events eager_client
       (snd (request_with_retry always_failing ''vpc/list-vpcs.bru'' eager_client))))
     \<le> max_retry_delay eager_client"
  unfolding eager_client_run by (simp add: eager_client_def)

text \<open>
  Claim C2, as amended.  For every maximum retry count \<open>N \<ge> 0\<close>: when the initial
  \<^verbatim>\<open>authenticate()\<close> of the call does not raise, every run of the external command fails
  with \<^verbatim>\<open>CalledProcessError\<close>, the backoff factor is not negative and
  \<^verbatim>\<open>time.sleep\<close> accepts both the initial and the maximum delay (each is non-negative
  and below the longest delay that the platform sleeps), then \<^verbatim>\<open>request_with_retry\<close> runs
  the command exactly \<open>N + 1\<close> times and then raises \<^verbatim>\<open>BrunoAPIError\<close>.
\<close>

theorem always_failing_attempts:
  assumes "0 \<le> max_retries c"
    and "\<And>n. run_result w n = Inl CalledProcessError"
    and "fst (authenticate w False c) = Inr ()"
    and "0 \<le> backoff_factor c"
    and "time_sleep w (initial_retry_delay c) = None"
    and "time_sleep w (max_retry_delay c) = None"
  shows "fst (request_with_retry w f c) = Inl BrunoAPIError \<and>
         attempts (call_events c (snd (request_with_retry w f c))) = nat (max_retries c) + 1"
proof -
  obtain c1 where a: "authenticate w False c = (Inr (), c1)"
    using assms(3) by (cases "authenticate w False c") auto
  from authenticate_events[OF a] obtain es0 where es0:
    "trace c1 = trace c @ es0" "attempts es0 = 0" by auto
  note cfg = authenticate_cfg[OF a]
  from retry_loop_events[of w f 0 "initial_retry_delay c1" c1] obtain es where es:
    "trace (snd (retry_loop w f 0 (initial_retry_delay c1) c1)) = trace c1 @ es"
    by auto
  have loop: "fst (retry_loop w f 0 (initial_retry_delay c1) c1) = Inl BrunoAPIError"
    "attempts (trace (snd (retry_loop w f 0 (initial_retry_delay c1) c1))) =
       attempts (trace c1) + nat (max_retries c1) + 1"
    using retry_loop_all_transport[OF assms(2), of 0 c1 "initial_retry_delay c1" f]
      assms(1,4,5,6) cfg
    by auto
  have ev: "call_events c (snd (request_with_retry w f c)) = es0 @ es"
    using a es0 es by (simp add: request_with_retry_def call_events_def)
  have "attempts es = nat (max_retries c) + 1"
    using loop(2) es es0 cfg by simp
  then show ?thesis
    using a loop(1) ev es0 by (simp add: request_with_retry_def)
qed

theorem always_failing_attempts_witness:
  "0 \<le> max_retries default_client \<and>
   fst (authenticate always_failing False default_client) = Inr () \<and>
   0 \<le> backoff_factor default_client \<and>
   time_sleep always_failing (initial_retry_delay default_client) = None \<and>
   time_sleep always_failing (max_retry_delay default_client) = None \<and>
   fst (request_with_retry always_failing ''vpc/list-vpcs.bru'' default_client) =
     Inl BrunoAPIError \<and>
   attempts (call_events default_client
     (snd (request_with_retry always_failing ''vpc/list-vpcs.bru'' default_client))) = 4"
proof -
  have h1: "0 \<le> max_retries default_client" by (simp add: default_client_def)
  have h2: "\<And>n. run_result always_failing n = Inl CalledProcessError"
    by (simp add: always_failing_def)
  have h3: "fst (authenticate always_failing False default_client) = Inr ()"
    by (simp add: authenticate_def should_refresh_token_def Let_def default_client_def
        always_failing_def log_event_def)
  have h4: "0 \<le> backoff_factor default_client" by (simp add: default_client_def)
  have h5: "time_sleep always_failing (initial_retry_delay default_client) = None"
    and h6: "time_sleep always_failing (max_retry_delay default_client) = None"
    by (simp_all add: default_client_def)
  show ?thesis
    using always_failing_attempts[OF h1 h2 h3 h4 h5 h6, of "''vpc/list-vpcs.bru''"]
      h1 h3 h4 h5 h6
    by (simp add: default_client_def)
qed

text \<open>
  Claim C2 as stated fails in two ways.  With \<^verbatim>\<open>BrunoClient(initial_retry_delay=-1.0)\<close>
  (\<open>N = 3\<close>) the first \<^verbatim>\<open>time.sleep(delay)\<close> raises \<^verbatim>\<open>ValueError\<close> inside the
  \<^verbatim>\<open>except\<close> clause: the command is run once, not four times, and the error is not a
  \<^verbatim>\<open>BrunoAPIError\<close>.  And when the token request of the initial \<^verbatim>\<open>authenticate()\<close>
  fails like every other invocation, the default client raises \<^verbatim>\<open>AuthenticationError\<close>
  without running the command at all.
\<close>

theorem always_failing_attempts_counterexample:
  "max_retries negative_delay_client = 3 \<and>
   run_result always_failing 0 = Inl CalledProcessError \<and>
   fst (request_with_retry always_failing ''vpc/list-vpcs.bru'' negative_delay_client) =
     Inl ValueError \<and>
   attempts (call_events negative_delay_client
     (snd (request_with_retry always_failing ''vpc/list-vpcs.bru'' negative_delay_client))) = 1 \<and>
   max_retries default_client = 3 \<and>
   fst (request_with_retry cli_down ''vpc/list-vpcs.bru'' default_client) =
     Inl AuthenticationError \<and>
   attempts (call_events default_client
     (snd (request_with_retry cli_down ''vpc/list-vpcs.bru'' default_client))) = 0"
  unfolding negative_delay_run cli_down_run
  by (simp add: call_events_def negative_delay_client_def default_client_def
      always_failing_def)

text \<open>
  Claim C3, as amended.  For every configuration in which the initial delay and the backoff
  factor are whole numbers, \<open>initial_retry_delay \<le> max_retry_delay\<close> and
  \<^verbatim>\<open>time.sleep\<close> accepts the maximum delay, and for every attempt index \<open>k < max_retries\<close>
  such that the initial \<^verbatim>\<open>authenticate()\<close> does not raise and attempts \<open>0, \<dots>, k\<close> of the
  call fail with a transport error or a rate limit, the delay slept directly after attempt
  \<open>k\<close> is \<open>min (initial_retry_delay * backoff_factor ^ k) max_retry_delay\<close>.  (A delay that
  \<^verbatim>\<open>time.sleep\<close> accepts is below \<open>2 ^ 53\<close>, see \<open>longest_sleep_bound\<close>, and whole
  numbers below \<open>2 ^ 53\<close> are doubles; so a product of the loop that is at most the maximum
  delay is not rounded, and one that is above it is cut down to the maximum delay, rounded or
  not.  The interpreter computes these delays as the model does.)
\<close>

theorem backoff_delay_closed_form:
  assumes "initial_retry_delay c \<in> \<nat>" and "backoff_factor c \<in> \<nat>"
    and "initial_retry_delay c \<le> max_retry_delay c"
    and "time_sleep w (max_retry_delay c) = None"
    and "int k < max_retries c"
    and "\<And>i. i \<le> k \<Longrightarrow> backoff_failure (run_result w (attempts (trace c) + i))"
    and "fst (authenticate w False c) = Inr ()"
  shows "sleep_after_attempt (call_events c (snd (request_with_retry w f c))) k =
         Some (min (initial_retry_delay c * backoff_factor c ^ k) (max_retry_delay c))"
proof -
  have i0: "0 \<le> initial_retry_delay c" and f0: "0 \<le> backoff_factor c"
    using assms(1,2) by (auto simp: Nats_def)
  have mx: "0 \<le> max_retry_delay c" "max_retry_delay c < longest_sleep w"
    using assms(4) by (simp_all add: time_sleep_accepts)
  obtain c1 where a: "authenticate w False c = (Inr (), c1)"
    using assms(7) by (cases "authenticate w False c") auto
  from authenticate_events[OF a] obtain es0 where es0:
    "trace c1 = trace c @ es0" "attempts es0 = 0" by auto
  note cfg = authenticate_cfg[OF a]
  let ?res = "retry_loop w f 0 (initial_retry_delay c1) c1"
  let ?g = "delay_after (backoff_factor c) (max_retry_delay c) (initial_retry_delay c)"
  from retry_loop_events[of w f 0 "initial_retry_delay c1" c1] obtain es where es:
    "trace (snd ?res) = trace c1 @ es" by auto
  have ev: "call_events c (snd (request_with_retry w f c)) = es0 @ es"
    using a es0 es by (simp add: request_with_retry_def call_events_def)
  have acc: "time_sleep w (?g i) = None" for i
  proof -
    have "0 \<le> ?g i" by (rule delay_after_nonneg[OF i0 f0 mx(1)])
    moreover have "?g i \<le> max_retry_delay c" by (rule delay_after_capped[OF assms(3)])
    ultimately show ?thesis using mx(2) by (simp add: time_sleep_accepts)
  qed
  have "0 + int k < max_retries c1 \<and>
        (\<forall>i\<le>k. backoff_failure (run_result w (attempts (trace c1) + i))) \<and>
        (\<forall>i\<le>k. time_sleep w (delay_after (backoff_factor c1) (max_retry_delay c1)
           (initial_retry_delay c1) i) = None)"
    using assms(5,6) cfg es0 acc by simp
  then have "sleep_after_attempt (drop (length (trace c1)) (trace (snd ?res))) k =
      Some (delay_after (backoff_factor c1) (max_retry_delay c1) (initial_retry_delay c1) k)"
    using retry_loop_sleep_after[of 0 c1 w "initial_retry_delay c1" f] by blast
  then have "sleep_after_attempt es k = Some (?g k)"
    using es cfg by simp
  then show ?thesis
    unfolding ev using es0 assms(3) f0
    by (simp add: sleep_after_attempt_no_runs delay_after_closed)
qed

theorem backoff_delay_closed_form_witness:
  "initial_retry_delay default_client \<in> \<nat> \<and> backoff_factor default_client \<in> \<nat> \<and>
   initial_retry_delay default_client \<le> max_retry_delay default_client \<and>
   time_sleep always_failing (max_retry_delay default_client) = None \<and>
   int 2 < max_retries default_client \<and>
   fst (authenticate always_failing False default_client) = Inr () \<and>
   sleep_after_attempt (call_events default_client
     (snd (request_with_retry always_failing ''vpc/list-vpcs.bru'' default_client))) 2 = Some 4"
proof -
  have h1: "initial_retry_delay default_client \<in> \<nat>"
    and h2: "backoff_factor default_client \<in> \<nat>"
    and h3: "initial_retry_delay default_client \<le> max_retry_delay default_client"
    and h5: "time_sleep always_failing (max_retry_delay default_client) = None"
    and h6: "int 2 < max_retries default_client"
    by (simp_all add: default_client_def)
  have h7: "\<And>i. i \<le> 2 \<Longrightarrow>
      backoff_failure (run_result always_failing (attempts (trace default_client) + i))"
    by (simp add: always_failing_def backoff_failure_def)
  have h8: "fst (authenticate always_failing False default_client) = Inr ()"
    by (simp add: authenticate_def should_refresh_token_def Let_def default_client_def
        always_failing_def log_event_def)
  show ?thesis
    using backoff_delay_closed_form[OF h1 h2 h3 h5 h6 h7 h8, of "''vpc/list-vpcs.bru''"]
      h1 h2 h3 h5 h6 h8
    by (simp add: default_client_def)
qed

text \<open>
  Claim C3 as stated (for every configuration) fails: the first delay is the initial delay
  itself, which no \<open>min\<close> has capped; with 100 above the maximum 60 the delay after attempt 0
  is 100, not 60.
\<close>

theorem backoff_delay_closed_form_counterexample:
  "sleep_after_attempt (call_events eager_client
     (snd (request_with_retry always_failing ''vpc/list-vpcs.bru'' eager_client))) 0
   \<noteq> Some (min (initial_retry_delay eager_client * backoff_factor eager_client ^ 0)
        (max_retry_delay eager_client))"
  unfolding eager_client_run by (simp add: eager_client_def)

text \<open>
  Claim C8.  Whatever the outside world does, one call of \<^verbatim>\<open>request_with_retry\<close> forces at
  most one credential refresh; and when two consecutive attempts \<open>j\<close> and \<open>j + 1\<close> of the call
  are both answered with \<^verbatim>\<open>AuthenticationError\<close>, the call raises \<^verbatim>\<open>AuthenticationError\<close>,
  the second of these attempts is the last thing the call does, and the call has forced exactly
  one refresh.
\<close>

theorem second_auth_failure_propagates:
  "forced_refreshes (call_events c (snd (request_with_retry w f c))) \<le> 1 \<and>
   (\<forall>j. Suc j < attempts (call_events c (snd (request_with_retry w f c))) \<and>
        run_result w (attempts (trace c) + j) = Inl AuthenticationError \<and>
        run_result w (attempts (trace c) + Suc j) = Inl AuthenticationError \<longrightarrow>
        fst (request_with_retry w f c) = Inl AuthenticationError \<and>
        attempts (call_events c (snd (request_with_retry w f c))) = Suc (Suc j) \<and>
        last (call_events c (snd (request_with_retry w f c))) =
          EvRun [''auth/get-iam-token.bru'', f] \<and>
        forced_refreshes (call_events c (snd (request_with_retry w f c))) = 1)"
proof -
  obtain r c1 where a: "authenticate w False c = (r, c1)"
    by (cases "authenticate w False c")
  from authenticate_events[OF a] obtain es0 where es0:
    "trace c1 = trace c @ es0" "attempts es0 = 0" "forced_refreshes es0 = 0" by auto
  show ?thesis
  proof (cases r)
    case (Inl e)
    then have "call_events c (snd (request_with_retry w f c)) = es0"
      using a es0 by (simp add: request_with_retry_def call_events_def)
    then show ?thesis using es0 by simp
  next
    case (Inr u)
    let ?res = "retry_loop w f 0 (initial_retry_delay c1) c1"
    from retry_loop_events[of w f 0 "initial_retry_delay c1" c1] obtain es where es:
      "trace (snd ?res) = trace c1 @ es" "forced_refreshes es \<le> 1" by auto
    have res: "request_with_retry w f c = ?res"
      using a Inr by (simp add: request_with_retry_def)
    have ev: "call_events c (snd (request_with_retry w f c)) = es0 @ es"
      using res es0 es by (simp add: call_events_def)
    have at: "attempts (trace c1) = attempts (trace c)" using es0 by simp
    have diff: "attempts (trace (snd ?res)) - attempts (trace c1) = attempts es"
      using es by simp
    have dr: "drop (length (trace c1)) (trace (snd ?res)) = es" using es by simp
    have "fst ?res = Inl AuthenticationError \<and> attempts es = Suc (Suc j) \<and>
          last (es0 @ es) = EvRun [''auth/get-iam-token.bru'', f] \<and> forced_refreshes es = 1"
      if h: "Suc j < attempts es"
        "run_result w (attempts (trace c) + j) = Inl AuthenticationError"
        "run_result w (attempts (trace c) + Suc j) = Inl AuthenticationError" for j
    proof -
      have "1 \<le> 0 + int (Suc j) \<and> Suc j < attempts (trace (snd ?res)) - attempts (trace c1) \<and>
            run_result w (attempts (trace c1) + Suc j) = Inl AuthenticationError"
        using h at diff by simp
      then have l: "fst ?res = Inl AuthenticationError"
        "attempts (trace (snd ?res)) = attempts (trace c1) + Suc j + 1"
        "\<exists>es'. trace (snd ?res) = trace c1 @ es' @ [EvRun [''auth/get-iam-token.bru'', f]]"
        using retry_loop_late_auth_failure[of 0 w f "initial_retry_delay c1" c1] by blast+
      have n: "attempts es = Suc (Suc j)" using l(2) es by simp
      from l(3) es obtain es' where es': "es = es' @ [EvRun [''auth/get-iam-token.bru'', f]]"
        by auto
      have j0: "j = 0"
      proof (rule ccontr)
        assume "j \<noteq> 0"
        then have "1 \<le> 0 + int j \<and> j < attempts (trace (snd ?res)) - attempts (trace c1) \<and>
            run_result w (attempts (trace c1) + j) = Inl AuthenticationError"
          using h at diff by simp
        then have "attempts (trace (snd ?res)) = attempts (trace c1) + j + 1"
          using retry_loop_late_auth_failure[of 0 w f "initial_retry_delay c1" c1] by blast
        then show False using l(2) by simp
      qed
      have "0 = (0::int) \<and> run_result w (attempts (trace c1)) = Inl AuthenticationError \<and>
            attempts (trace c1) < attempts (trace (snd ?res))"
        using h j0 at es by simp
      then have "1 \<le> forced_refreshes es"
        using retry_loop_first_auth_failure[of 0 w c1 f "initial_retry_delay c1"] dr by simp
      then show ?thesis using l(1) n es' es(2) by simp
    qed
    then have key: "\<And>j. Suc j < attempts es \<Longrightarrow>
        run_result w (attempts (trace c) + j) = Inl AuthenticationError \<Longrightarrow>
        run_result w (attempts (trace c) + Suc j) = Inl AuthenticationError \<Longrightarrow>
        fst ?res = Inl AuthenticationError \<and> attempts es = Suc (Suc j) \<and>
        last (es0 @ es) = EvRun [''auth/get-iam-token.bru'', f] \<and> forced_refreshes es = 1"
      by blast
    have p1: "forced_refreshes (es0 @ es) \<le> 1" using es(2) es0(3) by simp
    have fa: "forced_refreshes (es0 @ es) = forced_refreshes es"
      and aa: "attempts (es0 @ es) = attempts es"
      using es0 by simp_all
    have ev2: "call_events c (snd ?res) = es0 @ es"
      using ev res by simp
    show ?thesis
      unfolding res ev2 aa using p1 key fa by auto
  qed
qed

theorem second_auth_failure_propagates_witness:
  "Suc 0 < attempts (call_events default_client
       (snd (request_with_retry expired_token ''vpc/list-vpcs.bru'' default_client))) \<and>
   run_result expired_token (attempts (trace default_client) + 0) = Inl AuthenticationError \<and>
   run_result expired_token (attempts (trace default_client) + Suc 0) =
     Inl AuthenticationError \<and>
   fst (request_with_retry expired_token ''vpc/list-vpcs.bru'' default_client) =
     Inl AuthenticationError \<and>
   attempts (call_events default_client
       (snd (request_with_retry expired_token ''vpc/list-vpcs.bru'' default_client))) = 2 \<and>
   forced_refreshes (call_events default_client
       (snd (request_with_retry expired_token ''vpc/list-vpcs.bru'' default_client))) = 1"
proof -
  have h: "Suc 0 < attempts (call_events default_client
       (snd (request_with_retry expired_token ''vpc/list-vpcs.bru'' default_client)))"
    unfolding expired_token_run by simp
  have r: "run_result expired_token n = Inl AuthenticationError" for n
    by (simp add: expired_token_def)
  from second_auth_failure_propagates[of default_client expired_token "''vpc/list-vpcs.bru''"]
  have "fst (request_with_retry expired_token ''vpc/list-vpcs.bru'' default_client) =
      Inl AuthenticationError \<and>
    attempts (call_events default_client
       (snd (request_with_retry expired_token ''vpc/list-vpcs.bru'' default_client))) =
      Suc (Suc 0) \<and>
    forced_refreshes (call_events default_client
       (snd (request_with_retry expired_token ''vpc/list-vpcs.bru'' default_client))) = 1"
    using h r by blast
  then show ?thesis using h r by simp
qed

section \<open>Pagination: auxiliary facts and claims\<close>

lemma cursor_of_page_with_next: "get_pagination_cursor page_with_next = Inr (Some ''abc123'')"
  by (simp add: get_pagination_cursor_def page_with_next_def dict_get_def py_split_def
      starts_with_def Let_def)

lemma cursor_of_last_page: "get_pagination_cursor last_page = Inr None"
  by (simp add: get_pagination_cursor_def last_page_def dict_get_def Let_def)

lemma vpcs_of_page_with_next: "page_vpcs page_with_next = Inr [vpc_item ''a'', vpc_item ''b'']"
  by (simp add: page_vpcs_def page_with_next_def dict_get_def vpc_item_def)

lemma vpcs_of_last_page: "page_vpcs last_page = Inr [vpc_item ''y'', vpc_item ''z'']"
  by (simp add: page_vpcs_def last_page_def dict_get_def vpc_item_def)

lemma endless_pages_loop:
  "paginate_loop fuel endless_pages (Some 0) p = None"
  by (induction fuel arbitrary: p)
     (simp_all add: reached_max_pages_def endless_pages_def cursor_of_page_with_next
       vpcs_of_page_with_next cursor_truthy_def Let_def)

lemma max_pages_zero_never_returns: "paginate_list_vpcs fuel endless_pages limit (Some 0) = None"
  by (simp add: paginate_list_vpcs_def endless_pages_loop)

lemma paginate_loop_bound:
  assumes "1 \<le> k"
  shows "nat (k + 1 - page_num p) < fuel \<Longrightarrow> 1 \<le> page_num p \<Longrightarrow>
         \<exists>r p'. paginate_loop fuel w (Some k) p = Some (r, p') \<and>
                 fetched p' \<le> fetched p + nat (k + 1 - page_num p)"
proof (induction fuel arbitrary: p)
  case 0
  then show ?case by simp
next
  case (Suc fuel)
  show ?case
  proof (cases "reached_max_pages (Some k) (page_num p)")
    case True
    then show ?thesis by simp
  next
    case False
    then have le: "page_num p \<le> k" using assms by (simp add: reached_max_pages_def)
    let ?q = "\<lambda>vpcs cur. p\<lparr>fetched := Suc (fetched p), all_vpcs := all_vpcs p @ vpcs,
                 cursor := cur, page_num := page_num p + 1\<rparr>"
    have step: "\<exists>r p'. paginate_loop fuel w (Some k) (?q vpcs cur) = Some (r, p') \<and>
                 fetched p' \<le> fetched (?q vpcs cur) + nat (k + 1 - page_num (?q vpcs cur))"
      for vpcs cur
      using Suc.prems le by (intro Suc.IH) auto
    have "nat (k + 1 - page_num p) = Suc (nat (k + 1 - (page_num p + 1)))"
      using le by simp
    then show ?thesis
      using False step
      by (simp add: Let_def split: sum.splits exn.splits)
  qed
qed
lemma paginate_max_pages_positive:
  assumes "1 \<le> k" and "nat k < fuel"
  shows "\<exists>r n. paginate_list_vpcs fuel w limit (Some k) = Some (r, n) \<and> int n \<le> k"
proof -
  let ?p0 = "\<lparr>all_vpcs = [], page_num = 1, cursor = None, fetched = 0\<rparr>"
  from paginate_loop_bound[OF assms(1), of ?p0 fuel w] assms(2)
  obtain r p' where r: "paginate_loop fuel w (Some k) ?p0 = Some (r, p')"
    "fetched p' \<le> nat k" by auto
  then show ?thesis using assms(1)
    by (cases r) (auto simp: paginate_list_vpcs_def)
qed

lemma no_next_no_cursor:
  "map_of kvs ''next'' = None \<Longrightarrow> get_pagination_cursor (JObj kvs) = Inr None"
  by (simp add: get_pagination_cursor_def dict_get_def)

lemma no_href_no_cursor:
  "map_of kvs ''next'' = Some (JObj nkvs) \<Longrightarrow> map_of nkvs ''href'' = None \<Longrightarrow>
   get_pagination_cursor (JObj kvs) = Inr None"
  by (simp add: get_pagination_cursor_def dict_get_def Let_def)

lemma no_start_no_cursor:
  "map_of kvs ''next'' = Some (JObj nkvs) \<Longrightarrow> map_of nkvs ''href'' = Some (JStr s) \<Longrightarrow>
   \<not> contains ''start='' s \<Longrightarrow> get_pagination_cursor (JObj kvs) = Inr None"
  by (simp add: get_pagination_cursor_def dict_get_def Let_def)


text \<open>
  Claim C4 at \<open>max_pages = 0\<close>.  The guard \<^verbatim>\<open>if max_pages and page_num > max_pages\<close> reads
  0 as "no limit": with a limit of 0 pages, three pages are fetched from a server that has
  three.  (For \<open>max_pages \<ge> 1\<close> the bound holds, see \<open>paginate_max_pages_positive\<close>; against a
  server that always offers a cursor the call with \<open>max_pages = 0\<close> never returns, see
  \<open>max_pages_zero_never_returns\<close>.)
\<close>

theorem max_pages_zero_is_no_limit:
  "paginate_list_vpcs 3 three_pages 2 (Some 0) =
     Some (Inr [vpc_item ''a'', vpc_item ''b'', vpc_item ''a'', vpc_item ''b'',
                vpc_item ''y'', vpc_item ''z''], 3)"
  by (simp add: paginate_list_vpcs_def numeral_3_eq_3 reached_max_pages_def three_pages_def
      cursor_of_page_with_next cursor_of_last_page vpcs_of_page_with_next vpcs_of_last_page
      cursor_truthy_def Let_def)


text \<open>
  Claim C7.  In any iteration of the loop that fetches a page, if the response has no
  \<^verbatim>\<open>next\<close> entry, or its \<^verbatim>\<open>next\<close> object has no \<^verbatim>\<open>href\<close>, or the \<^verbatim>\<open>href\<close> string does
  not contain \<^verbatim>\<open>start=\<close>, then no cursor is extracted and the loop ends with this page,
  whatever items the page holds and however many.
\<close>

theorem pagination_stops_without_cursor:
  assumes "\<not> reached_max_pages max_pages (page_num p)"
    and "run_result w (fetched p) = Inr (JObj kvs)"
    and "page_vpcs (JObj kvs) = Inr vpcs"
    and "map_of kvs ''next'' = None \<or>
         (\<exists>nkvs. map_of kvs ''next'' = Some (JObj nkvs) \<and>
            (map_of nkvs ''href'' = None \<or>
             (\<exists>s. map_of nkvs ''href'' = Some (JStr s) \<and> \<not> contains ''start='' s)))"
  shows "get_pagination_cursor (JObj kvs) = Inr None \<and>
         paginate_loop (Suc fuel) w max_pages p =
           Some (None, p\<lparr>fetched := Suc (fetched p), all_vpcs := all_vpcs p @ vpcs,
                         cursor := None\<rparr>)"
proof -
  have c: "get_pagination_cursor (JObj kvs) = Inr None"
    using assms(4) no_next_no_cursor no_href_no_cursor no_start_no_cursor by blast
  then show ?thesis
    using assms(1-3) by (simp add: cursor_truthy_def Let_def)
qed

theorem pagination_stops_without_cursor_witness:
  "paginate_list_vpcs 1 one_full_page 2 None = Some (Inr [vpc_item ''a'', vpc_item ''b''], 1)"
proof -
  let ?p0 = "\<lparr>all_vpcs = [], page_num = 1, cursor = None, fetched = 0\<rparr>"
  let ?kvs = "[(''vpcs'', JArr [vpc_item ''a'', vpc_item ''b'']),
           (''next'', JObj [(''href'', JStr ''https://h/v1/vpcs?limit=2'')])]"
  have h1: "\<not> reached_max_pages None (page_num ?p0)" by (simp add: reached_max_pages_def)
  have h2: "run_result one_full_page (fetched ?p0) = Inr (JObj ?kvs)"
    by (simp add: one_full_page_def full_last_page_def)
  have h3: "page_vpcs (JObj ?kvs) = Inr [vpc_item ''a'', vpc_item ''b'']"
    by (simp add: page_vpcs_def dict_get_def vpc_item_def)
  have h4: "map_of ?kvs ''next'' = None \<or>
         (\<exists>nkvs. map_of ?kvs ''next'' = Some (JObj nkvs) \<and>
            (map_of nkvs ''href'' = None \<or>
             (\<exists>s. map_of nkvs ''href'' = Some (JStr s) \<and> \<not> contains ''start='' s)))"
    by (simp add: starts_with_def)
  from pagination_stops_without_cursor[OF h1 h2 h3 h4, of 0]
  show ?thesis by (simp add: paginate_list_vpcs_def)
qed

section \<open>The chained workflow: auxiliary facts and claims\<close>

lemma dict_set_fresh: "k \<notin> fst ` set kvs \<Longrightarrow> dict_set k v kvs = kvs @ [(k, v)]"
  by (induction kvs) auto

lemma foldl_dict_set_distinct:
  "distinct (map fst acc @ map fst kvs) \<Longrightarrow>
   foldl (\<lambda>resolved (k, v). dict_set k (g v) resolved) acc kvs =
     acc @ map (\<lambda>(k, v). (k, g v)) kvs"
proof (induction kvs arbitrary: acc)
  case Nil
  then show ?case by simp
next
  case (Cons kv kvs)
  obtain k v where kv: "kv = (k, v)" by (cases kv)
  have fresh: "k \<notin> fst ` set acc" using Cons.prems kv by auto
  have "distinct (map fst (acc @ [(k, g v)]) @ map fst kvs)"
    using Cons.prems kv by auto
  from Cons.IH[OF this] show ?case
    using kv fresh by (simp add: dict_set_fresh)
qed

lemma resolve_placeholders_map:
  "distinct (map fst env_vs) \<Longrightarrow>
   resolve_placeholders self env_vs = map (\<lambda>(k, v). (k, resolve_value self v)) env_vs"
  using foldl_dict_set_distinct[of "[]" env_vs "resolve_value self"]
  by (simp add: resolve_placeholders_def)

lemma map_of_mapped_distinct:
  "distinct (map fst kvs) \<Longrightarrow> (k, v) \<in> set kvs \<Longrightarrow>
   map_of (map (\<lambda>(k, v). (k, g v)) kvs) k = Some (g v)"
  by (induction kvs) (auto simp: rev_image_eqI)

lemma resolve_value_captured:
  "captured (vpc_id self) \<Longrightarrow> resolve_value self ''${vpc_id}'' = the (vpc_id self)"
  "captured (subnet_id self) \<Longrightarrow> resolve_value self ''${subnet_id}'' = the (subnet_id self)"
  "captured (sg_id self) \<Longrightarrow> resolve_value self ''${sg_id}'' = the (sg_id self)"
  "captured (instance_id self) \<Longrightarrow>
     resolve_value self ''${instance_id}'' = the (instance_id self)"
  by (simp_all add: resolve_value_def)

lemma resolve_value_unchanged:
  assumes "v = ''${vpc_id}'' \<longrightarrow> \<not> captured (vpc_id self)"
    and "v = ''${subnet_id}'' \<longrightarrow> \<not> captured (subnet_id self)"
    and "v = ''${sg_id}'' \<longrightarrow> \<not> captured (sg_id self)"
    and "v = ''${instance_id}'' \<longrightarrow> \<not> captured (instance_id self)"
  shows "resolve_value self v = v"
proof -
  have "\<not> (v = ''${vpc_id}'' \<and> captured (vpc_id self))"
    "\<not> (v = ''${subnet_id}'' \<and> captured (subnet_id self))"
    "\<not> (v = ''${sg_id}'' \<and> captured (sg_id self))"
    "\<not> (v = ''${instance_id}'' \<and> captured (instance_id self))"
    using assms by blast+
  then show ?thesis unfolding resolve_value_def by (simp only: if_False)
qed

text \<open>
  Claim C6.  Let \<open>env_vars\<close> be a dictionary (its keys are pairwise distinct) and \<open>(k, v)\<close> one
  of its items.  The resolved dictionary has the keys of \<open>env_vars\<close>, in the same order.  If
  \<open>v\<close> is one of the four tokens and the identifier of that token has been captured (it is a
  non-empty string \<open>i\<close>), the resolved value at \<open>k\<close> is \<open>i\<close>.  If \<open>v\<close> is none of the tokens, or
  is a token whose identifier has not been captured, the resolved value at \<open>k\<close> is \<open>v\<close> itself.
\<close>

theorem resolve_placeholders_flat:
  assumes "distinct (map fst env_vs)" and "(k, v) \<in> set env_vs"
  shows "map fst (resolve_placeholders self env_vs) = map fst env_vs \<and>
    (v = ''${vpc_id}'' \<and> vpc_id self = Some i \<and> i \<noteq> [] \<longrightarrow>
       map_of (resolve_placeholders self env_vs) k = Some i) \<and>
    (v = ''${subnet_id}'' \<and> subnet_id self = Some i \<and> i \<noteq> [] \<longrightarrow>
       map_of (resolve_placeholders self env_vs) k = Some i) \<and>
    (v = ''${sg_id}'' \<and> sg_id self = Some i \<and> i \<noteq> [] \<longrightarrow>
       map_of (resolve_placeholders self env_vs) k = Some i) \<and>
    (v = ''${instance_id}'' \<and> instance_id self = Some i \<and> i \<noteq> [] \<longrightarrow>
       map_of (resolve_placeholders self env_vs) k = Some i) \<and>
    ((v = ''${vpc_id}'' \<longrightarrow> \<not> captured (vpc_id self)) \<and>
     (v = ''${subnet_id}'' \<longrightarrow> \<not> captured (subnet_id self)) \<and>
     (v = ''${sg_id}'' \<longrightarrow> \<not> captured (sg_id self)) \<and>
     (v = ''${instance_id}'' \<longrightarrow> \<not> captured (instance_id self)) \<longrightarrow>
       map_of (resolve_placeholders self env_vs) k = Some v)"
proof -
  have keys: "map fst (resolve_placeholders self env_vs) = map fst env_vs"
    using assms(1) by (simp add: resolve_placeholders_map case_prod_unfold)
  have val: "map_of (resolve_placeholders self env_vs) k = Some (resolve_value self v)"
    using assms by (simp add: resolve_placeholders_map map_of_mapped_distinct)
  have c1: "v = ''${vpc_id}'' \<and> vpc_id self = Some i \<and> i \<noteq> [] \<longrightarrow>
       map_of (resolve_placeholders self env_vs) k = Some i"
    unfolding val using resolve_value_captured(1)[of self] by (simp add: captured_def)
  have c2: "v = ''${subnet_id}'' \<and> subnet_id self = Some i \<and> i \<noteq> [] \<longrightarrow>
       map_of (resolve_placeholders self env_vs) k = Some i"
    unfolding val using resolve_value_captured(2)[of self] by (simp add: captured_def)
  have c3: "v = ''${sg_id}'' \<and> sg_id self = Some i \<and> i \<noteq> [] \<longrightarrow>
       map_of (resolve_placeholders self env_vs) k = Some i"
    unfolding val using resolve_value_captured(3)[of self] by (simp add: captured_def)
  have c4: "v = ''${instance_id}'' \<and> instance_id self = Some i \<and> i \<noteq> [] \<longrightarrow>
       map_of (resolve_placeholders self env_vs) k = Some i"
    unfolding val using resolve_value_captured(4)[of self] by (simp add: captured_def)
  have c5: "(v = ''${vpc_id}'' \<longrightarrow> \<not> captured (vpc_id self)) \<and>
     (v = ''${subnet_id}'' \<longrightarrow> \<not> captured (subnet_id self)) \<and>
     (v = ''${sg_id}'' \<longrightarrow> \<not> captured (sg_id self)) \<and>
     (v = ''${instance_id}'' \<longrightarrow> \<not> captured (instance_id self)) \<longrightarrow>
       map_of (resolve_placeholders self env_vs) k = Some v"
  proof
    assume h: "(v = ''${vpc_id}'' \<longrightarrow> \<not> captured (vpc_id self)) \<and>
     (v = ''${subnet_id}'' \<longrightarrow> \<not> captured (subnet_id self)) \<and>
     (v = ''${sg_id}'' \<longrightarrow> \<not> captured (sg_id self)) \<and>
     (v = ''${instance_id}'' \<longrightarrow> \<not> captured (instance_id self))"
    from h have h1: "v = ''${vpc_id}'' \<longrightarrow> \<not> captured (vpc_id self)" by (rule conjunct1)
    from h have h': "(v = ''${subnet_id}'' \<longrightarrow> \<not> captured (subnet_id self)) \<and>
     (v = ''${sg_id}'' \<longrightarrow> \<not> captured (sg_id self)) \<and>
     (v = ''${instance_id}'' \<longrightarrow> \<not> captured (instance_id self))" by (rule conjunct2)
    from h' have h2: "v = ''${subnet_id}'' \<longrightarrow> \<not> captured (subnet_id self)"
      by (rule conjunct1)
    from h' have h'': "(v = ''${sg_id}'' \<longrightarrow> \<not> captured (sg_id self)) \<and>
     (v = ''${instance_id}'' \<longrightarrow> \<not> captured (instance_id self))" by (rule conjunct2)
    from h'' have h3: "v = ''${sg_id}'' \<longrightarrow> \<not> captured (sg_id self)" by (rule conjunct1)
    from h'' have h4: "v = ''${instance_id}'' \<longrightarrow> \<not> captured (instance_id self)"
      by (rule conjunct2)
    have "resolve_value self v = v"
      by (rule resolve_value_unchanged[OF h1 h2 h3 h4])
    then show "map_of (resolve_placeholders self env_vs) k = Some v"
      unfolding val by (rule arg_cong)
  qed
  show ?thesis
    by (intro conjI) (fact keys, fact c1, fact c2, fact c3, fact c4, fact c5)
qed

theorem resolve_placeholders_flat_witness:
  "distinct (map fst [(''VPC_ID'', ''${vpc_id}''), (''SECURITY_GROUP_ID'', ''${sg_id}''),
       (''ZONE_NAME'', ''us-south-1'')]) \<and>
   vpc_id (ready_workflow\<lparr>vpc_id := Some ''r006-0001''\<rparr>) = Some ''r006-0001'' \<and>
   sg_id (ready_workflow\<lparr>vpc_id := Some ''r006-0001''\<rparr>) = None \<and>
   resolve_placeholders (ready_workflow\<lparr>vpc_id := Some ''r006-0001''\<rparr>)
     [(''VPC_ID'', ''${vpc_id}''), (''SECURITY_GROUP_ID'', ''${sg_id}''),
      (''ZONE_NAME'', ''us-south-1'')] =
     [(''VPC_ID'', ''r006-0001''), (''SECURITY_GROUP_ID'', ''${sg_id}''),
      (''ZONE_NAME'', ''us-south-1'')] \<and>
   map_of (resolve_placeholders (ready_workflow\<lparr>vpc_id := Some ''r006-0001''\<rparr>)
     [(''VPC_ID'', ''${vpc_id}''), (''SECURITY_GROUP_ID'', ''${sg_id}''),
      (''ZONE_NAME'', ''us-south-1'')]) ''VPC_ID'' = Some ''r006-0001'' \<and>
   map_of (resolve_placeholders (ready_workflow\<lparr>vpc_id := Some ''r006-0001''\<rparr>)
     [(''VPC_ID'', ''${vpc_id}''), (''SECURITY_GROUP_ID'', ''${sg_id}''),
      (''ZONE_NAME'', ''us-south-1'')]) ''SECURITY_GROUP_ID'' = Some ''${sg_id}''"
proof -
  let ?S = "ready_workflow\<lparr>vpc_id := Some ''r006-0001''\<rparr>"
  let ?E = "[(''VPC_ID'', ''${vpc_id}''), (''SECURITY_GROUP_ID'', ''${sg_id}''),
      (''ZONE_NAME'', ''us-south-1'')]"
  have d: "distinct (map fst ?E)" by simp
  have m1: "(''VPC_ID'', ''${vpc_id}'') \<in> set ?E"
    and m2: "(''SECURITY_GROUP_ID'', ''${sg_id}'') \<in> set ?E" by simp_all
  have ids: "vpc_id ?S = Some ''r006-0001''" "sg_id ?S = None"
    by (simp_all add: ready_workflow_def init_workflow_def)
  have whole: "resolve_placeholders ?S ?E =
     [(''VPC_ID'', ''r006-0001''), (''SECURITY_GROUP_ID'', ''${sg_id}''),
      (''ZONE_NAME'', ''us-south-1'')]"
    by (simp add: resolve_placeholders_def resolve_value_def captured_def ready_workflow_def
        init_workflow_def)
  have v1: "map_of (resolve_placeholders ?S ?E) ''VPC_ID'' = Some ''r006-0001''"
    using resolve_placeholders_flat[OF d m1, of ?S "''r006-0001''"] ids by simp
  have v2: "map_of (resolve_placeholders ?S ?E) ''SECURITY_GROUP_ID'' = Some ''${sg_id}''"
    using resolve_placeholders_flat[OF d m2, of ?S "''r006-0001''"] ids
    by (simp add: captured_def)
  show ?thesis
    by (intro conjI) (fact d, fact ids(1), fact ids(2), fact whole, fact v1, fact v2)
qed

lemma build_steps_missing:
  assumes "\<not> captured (image_id self) \<or> \<not> captured (ssh_key_id self)"
  shows "fst (build_steps self) = Inl ValueError"
    and "snd (build_steps self) = self\<lparr>steps := steps (snd (build_steps self))\<rparr>"
    and "length (steps (snd (build_steps self))) = 7"
    and "list_all (\<lambda>s. status s = ''pending'') (steps (snd (build_steps self)))"
  using assms by (auto simp: build_steps_def Let_def new_step_def)

text \<open>
  Claim C5.  If \<^verbatim>\<open>image_id\<close> or \<^verbatim>\<open>ssh_key_id\<close> is absent (\<^verbatim>\<open>None\<close>, or empty),
  \<^verbatim>\<open>_build_steps\<close> raises \<^verbatim>\<open>ValueError\<close>, and \<^verbatim>\<open>execute\<close> returns \<^verbatim>\<open>False\<close> with
  the workflow status \<^verbatim>\<open>failed\<close>; it has run no subprocess, has not slept, has printed no
  summary, and every step that was built is still pending.
\<close>

theorem missing_identifier_fails_before_any_step:
  assumes "\<not> captured (image_id self) \<or> \<not> captured (ssh_key_id self)"
  shows "fst (build_steps (self\<lparr>workflow_status := ''running''\<rparr>)) = Inl ValueError \<and>
         fst (execute w self) = False \<and>
         workflow_status (snd (execute w self)) = ''failed'' \<and>
         invocations (snd (execute w self)) = invocations self \<and>
         pauses (snd (execute w self)) = pauses self \<and>
         printed (snd (execute w self)) = printed self \<and>
         list_all (\<lambda>s. status s = ''pending'') (steps (snd (execute w self)))"
proof -
  let ?s = "self\<lparr>workflow_status := ''running''\<rparr>"
  have m: "\<not> captured (image_id ?s) \<or> \<not> captured (ssh_key_id ?s)"
    using assms by simp
  obtain r s1 where b: "build_steps ?s = (r, s1)" by (cases "build_steps ?s")
  have r: "r = Inl ValueError" using build_steps_missing(1)[OF m] b by simp
  have s1: "s1 = ?s\<lparr>steps := steps s1\<rparr>" using build_steps_missing(2)[OF m] b by simp
  have p: "list_all (\<lambda>s. status s = ''pending'') (steps s1)"
    using build_steps_missing(4)[OF m] b by simp
  have ex: "execute w self = (False, s1\<lparr>workflow_status := ''failed''\<rparr>)"
    using b r by (simp add: execute_def)
  have "invocations s1 = invocations self" "pauses s1 = pauses self" "printed s1 = printed self"
    by (subst s1, simp)+
  then show ?thesis using ex b r p by simp
qed

theorem missing_identifier_fails_before_any_step_witness:
  "\<not> captured (image_id demo_workflow) \<and>
   fst (execute third_fails demo_workflow) = False \<and>
   workflow_status (snd (execute third_fails demo_workflow)) = ''failed'' \<and>
   invocations (snd (execute third_fails demo_workflow)) = [] \<and>
   printed (snd (execute third_fails demo_workflow)) = [] \<and>
   map status (steps (snd (execute third_fails demo_workflow))) =
     [''pending'', ''pending'', ''pending'', ''pending'', ''pending'', ''pending'', ''pending'']"
proof -
  have h: "\<not> captured (image_id demo_workflow)"
    by (simp add: demo_workflow_def init_workflow_def captured_def)
  then have h': "\<not> captured (image_id demo_workflow) \<or> \<not> captured (ssh_key_id demo_workflow)"
    by (rule disjI1)
  have i: "invocations demo_workflow = []" "printed demo_workflow = []"
    by (simp_all add: demo_workflow_def init_workflow_def)
  have st: "map status (steps (snd (execute third_fails demo_workflow))) =
     [''pending'', ''pending'', ''pending'', ''pending'', ''pending'', ''pending'', ''pending'']"
    using h by (simp add: execute_def build_steps_def Let_def new_step_def)
  show ?thesis
    using missing_identifier_fails_before_any_step[OF h', of third_fails] h i st by simp
qed

lemma resolve_value_index [simp]:
  "resolve_value (self\<lparr>current_step_index := i\<rparr>) v = resolve_value self v"
  by (simp add: resolve_value_def)

lemma resolve_placeholders_index [simp]:
  "resolve_placeholders (self\<lparr>current_step_index := i\<rparr>) env_vs =
   resolve_placeholders self env_vs"
  by (simp add: resolve_placeholders_def)

lemma execute_step_frame:
  "steps (snd (snd (execute_step w step self))) = steps self"
  "printed (snd (snd (execute_step w step self))) = printed self"
  "pauses (snd (snd (execute_step w step self))) = pauses self"
  "invocations (snd (snd (execute_step w step self))) =
     invocations self @
       [(bru_command (bru_file step) (wf_env self), resolve_placeholders self (env_vars step))]"
  by (simp_all add: execute_step_def run_bruno_request_def store_id_def Let_def
      split: sum.splits prod.splits)

lemma execute_step_succeeds:
  assumes "run_result w (length (invocations self)) = Inr response"
  shows "fst (execute_step w step self)"
    and "status (fst (snd (execute_step w step self))) = ''completed''"
    and "result (fst (snd (execute_step w step self))) = Some response"
  using assms
  by (simp_all add: execute_step_def run_bruno_request_def Let_def split: sum.splits)

lemma execute_step_fails:
  assumes "run_result w (length (invocations self)) = Inl e"
  shows "execute_step w step self =
     (False, step\<lparr>status := ''failed'', error := Some (failure_text w (length (invocations self)))\<rparr>,
      self\<lparr>invocations := invocations self @
        [(bru_command (bru_file step) (wf_env self),
          resolve_placeholders self (env_vars step))]\<rparr>)"
  using assms by (simp add: execute_step_def run_bruno_request_def Let_def)



lemma print_summary_fields [simp]:
  "steps (print_summary self) = steps self"
  "workflow_status (print_summary self) = workflow_status self"
  "invocations (print_summary self) = invocations self"
  "printed (print_summary self) = printed self @ [summary_of self]"
  "summary_of (print_summary self) = summary_of self"
  by (simp_all add: print_summary_def summary_of_def)

lemma run_steps_first_failure:
  assumes "steps self = pre @ rest" and "j < length rest"
    and "\<And>m. m < j \<Longrightarrow> \<exists>response. run_result w (length (invocations self) + m) = Inr response"
    and "run_result w (length (invocations self) + j) = Inl e"
  shows "\<exists>cs fs self'. run_steps w (Suc (length pre)) rest self = (False, self') \<and>
      steps self' = pre @ cs @ fs # drop (Suc j) rest \<and> length cs = j \<and>
      list_all (\<lambda>s. status s = ''completed'') cs \<and> status fs = ''failed'' \<and>
      workflow_status self' = ''failed'' \<and>
      length (invocations self') = length (invocations self) + j + 1 \<and>
      printed self' = printed self @ [summary_of self']"
  using assms
proof (induction rest arbitrary: self pre j)
  case Nil
  then show ?case by simp
next
  case (Cons step rest)
  let ?k = "length pre"
  let ?s0 = "self\<lparr>current_step_index := Suc ?k\<rparr>"
  obtain ok step' self1 where ex: "execute_step w step ?s0 = (ok, step', self1)"
    by (cases "execute_step w step ?s0") auto
  have frame: "steps self1 = pre @ step # rest" "printed self1 = printed self"
    "length (invocations self1) = Suc (length (invocations self))"
    using execute_step_frame[of w step ?s0] ex Cons.prems(1) by simp_all
  let ?self2 = "self1\<lparr>steps := (steps self1)[?k := step']\<rparr>"
  have steps2: "steps ?self2 = pre @ step' # rest"
    using frame(1) by simp
  show ?case
  proof (cases j)
    case 0
    then have "run_result w (length (invocations ?s0)) = Inl e"
      using Cons.prems(4) by simp
    from execute_step_fails[OF this, of step] ex
    have ok: "ok = False" and st: "status step' = ''failed''" by auto
    let ?self' = "print_summary (?self2\<lparr>workflow_status := ''failed''\<rparr>)"
    have run: "run_steps w (Suc ?k) (step # rest) self = (False, ?self')"
      using ex ok by (simp add: Let_def)
    show ?thesis
      apply (rule exI[of _ "[]"], rule exI[of _ step'], rule exI[of _ ?self'])
      using run st steps2 frame 0 by simp
  next
    case (Suc j')
    have "0 < j" using Suc by simp
    from Cons.prems(3)[OF this] obtain response where
      "run_result w (length (invocations ?s0)) = Inr response" by auto
    from execute_step_succeeds(1,2)[OF this, of step] ex
    have ok: "ok" and st: "status step' = ''completed''" by auto
    let ?self3 = "if Suc ?k < length (steps ?self2)
                  then ?self2\<lparr>pauses := Suc (pauses ?self2)\<rparr> else ?self2"
    have run: "run_steps w (Suc ?k) (step # rest) self =
               run_steps w (Suc (Suc ?k)) rest ?self3"
      using ex ok by (simp add: Let_def)
    have s3: "steps ?self3 = (pre @ [step']) @ rest" "printed ?self3 = printed self"
      "length (invocations ?self3) = Suc (length (invocations self))"
      using steps2 frame by simp_all
    have j': "j' < length rest" using Cons.prems(2) Suc by simp
    have ok': "\<exists>response. run_result w (length (invocations ?self3) + m) = Inr response"
      if "m < j'" for m
    proof -
      have "Suc m < j" using that Suc by simp
      from Cons.prems(3)[OF this] show ?thesis using s3(3) by simp
    qed
    have bad': "run_result w (length (invocations ?self3) + j') = Inl e"
      using Cons.prems(4) Suc s3(3) by simp
    from Cons.IH[OF s3(1) j' ok' bad'] obtain cs fs self' where r:
      "run_steps w (Suc (length (pre @ [step']))) rest ?self3 = (False, self')"
      "steps self' = (pre @ [step']) @ cs @ fs # drop (Suc j') rest"
      "length cs = j'" "list_all (\<lambda>s. status s = ''completed'') cs" "status fs = ''failed''"
      "workflow_status self' = ''failed''"
      "length (invocations self') = length (invocations ?self3) + j' + 1"
      "printed self' = printed ?self3 @ [summary_of self']"
      by blast
    show ?thesis
      apply (rule exI[of _ "step' # cs"], rule exI[of _ fs], rule exI[of _ self'])
      using run r st s3(2,3) Suc by simp
  qed
qed

lemma map_const_replicate:
  "list_all (\<lambda>s. f s = c) xs \<Longrightarrow> map f xs = replicate (length xs) c"
  by (induction xs) simp_all

lemma list_all_drop: "list_all P xs \<Longrightarrow> list_all P (drop n xs)"
  by (simp add: list_all_iff) (meson in_set_dropD)

lemma step_icon_by_status:
  "map step_icon xs =
   map (\<lambda>st. if st = ''completed'' then IconCompleted
              else if st = ''failed'' then IconFailed else IconNotRun) (map status xs)"
  by (simp add: step_icon_def)

lemma upper_failed: "upper ''failed'' = ''FAILED''"
  by code_simp

lemma completed_count_by_status:
  "length (filter (\<lambda>s. status s = ''completed'') xs) =
   length (filter (\<lambda>st. st = ''completed'') (map status xs))"
  by (simp add: filter_map comp_def)

lemma execute_after_build:
  assumes "build_steps (self\<lparr>workflow_status := ''running''\<rparr>) = (Inr u, built)"
    and "\<not> fst (execute_steps w built)"
  shows "execute w self = execute_steps w built"
  using assms by (cases "execute_steps w built") (auto simp: execute_def)

text \<open>
  Claim C1.  Let the loop of \<^verbatim>\<open>execute\<close> run over any list of steps that have not run yet
  (their status is \<^verbatim>\<open>pending\<close>, as the constructor sets it), let the subprocesses of the
  first \<open>i\<close> steps succeed and let the subprocess of the next step, the one at position \<open>i\<close>
  counted from 0, end in an exception \<open>e\<close> of any class.  Then the loop returns \<^verbatim>\<open>False\<close>
  with the workflow status \<^verbatim>\<open>failed\<close>; exactly \<open>i + 1\<close> subprocesses have been run, so no
  later step was executed, and the later steps are untouched; the statuses of the steps are
  \<open>i\<close> times \<^verbatim>\<open>completed\<close>, then \<^verbatim>\<open>failed\<close>, then \<^verbatim>\<open>pending\<close>; and the summary that is
  printed says \<^verbatim>\<open>FAILED\<close>, counts \<open>i\<close> completed steps, and shows the steps with these
  three icons in this order.
\<close>

theorem workflow_failure_is_terminal:
  assumes "i < length (steps self)"
    and "list_all (\<lambda>s. status s = ''pending'') (steps self)"
    and "\<And>j. j < i \<Longrightarrow> \<exists>response. run_result w (length (invocations self) + j) = Inr response"
    and "run_result w (length (invocations self) + i) = Inl e"
  shows "\<not> fst (execute_steps w self) \<and>
         workflow_status (snd (execute_steps w self)) = ''failed'' \<and>
         length (invocations (snd (execute_steps w self))) = length (invocations self) + i + 1 \<and>
         drop (Suc i) (steps (snd (execute_steps w self))) = drop (Suc i) (steps self) \<and>
         map status (steps (snd (execute_steps w self))) =
           replicate i ''completed'' @ [''failed''] @
           replicate (length (steps self) - Suc i) ''pending'' \<and>
         printed (snd (execute_steps w self)) =
           printed self @ [summary_of (snd (execute_steps w self))] \<and>
         summary_status (summary_of (snd (execute_steps w self))) = ''FAILED'' \<and>
         steps_completed (summary_of (snd (execute_steps w self))) = i \<and>
         steps_total (summary_of (snd (execute_steps w self))) = length (steps self) \<and>
         map fst (step_lines (summary_of (snd (execute_steps w self)))) =
           replicate i IconCompleted @ [IconFailed] @
           replicate (length (steps self) - Suc i) IconNotRun \<and>
         \<not> resources_listed (summary_of (snd (execute_steps w self)))"
proof -
  have s0: "steps self = [] @ steps self" by simp
  from run_steps_first_failure[OF s0 assms(1,3,4)] obtain cs fs self' where r:
    "run_steps w (Suc 0) (steps self) self = (False, self')"
    "steps self' = cs @ fs # drop (Suc i) (steps self)"
    "length cs = i" "list_all (\<lambda>s. status s = ''completed'') cs" "status fs = ''failed''"
    "workflow_status self' = ''failed''"
    "length (invocations self') = length (invocations self) + i + 1"
    "printed self' = printed self @ [summary_of self']"
    by auto
  have res: "execute_steps w self = (False, self')"
    using r(1) by (simp add: execute_steps_def)
  have later: "map status (drop (Suc i) (steps self)) =
      replicate (length (steps self) - Suc i) ''pending''"
    using map_const_replicate[OF list_all_drop[OF assms(2)], of "Suc i"] by simp
  have st: "map status (steps self') =
      replicate i ''completed'' @ [''failed''] @
      replicate (length (steps self) - Suc i) ''pending''"
    using map_const_replicate[OF r(4)] r(2,3,5) later by simp
  have len: "length (steps self') = length (steps self)"
    using r(2,3) assms(1) by simp
  have 1: "\<not> fst (execute_steps w self)" by (simp add: res)
  have 2: "workflow_status (snd (execute_steps w self)) = ''failed''"
    by (simp add: res r(6))
  have 3: "length (invocations (snd (execute_steps w self))) =
      length (invocations self) + i + 1"
    by (simp add: res r(7))
  have 4: "drop (Suc i) (steps (snd (execute_steps w self))) = drop (Suc i) (steps self)"
    using r(2,3) by (simp add: res)
  have 5: "map status (steps (snd (execute_steps w self))) =
           replicate i ''completed'' @ [''failed''] @
           replicate (length (steps self) - Suc i) ''pending''"
    by (simp add: res st)
  have 6: "printed (snd (execute_steps w self)) =
           printed self @ [summary_of (snd (execute_steps w self))]"
    by (simp add: res r(8))
  have 7: "summary_status (summary_of (snd (execute_steps w self))) = ''FAILED''"
    by (simp add: res summary_of_def r(6) upper_failed)
  have 8: "steps_completed (summary_of (snd (execute_steps w self))) = i"
    by (simp add: res summary_of_def completed_count_by_status st)
  have 9: "steps_total (summary_of (snd (execute_steps w self))) = length (steps self)"
    by (simp add: res summary_of_def len)
  have "map fst (step_lines (summary_of self')) = map step_icon (steps self')"
    by (simp add: summary_of_def comp_def)
  then have 10: "map fst (step_lines (summary_of (snd (execute_steps w self)))) =
           replicate i IconCompleted @ [IconFailed] @
           replicate (length (steps self) - Suc i) IconNotRun"
    by (simp add: res step_icon_by_status st)
  have 11: "\<not> resources_listed (summary_of (snd (execute_steps w self)))"
    by (simp add: res summary_of_def r(6))
  show ?thesis
    by (intro conjI) (fact 1, fact 2, fact 3, fact 4, fact 5, fact 6, fact 7, fact 8, fact 9,
        fact 10, fact 11)
qed

lemma ready_workflow_built:
  "fst (build_steps (ready_workflow\<lparr>workflow_status := ''running''\<rparr>)) = Inr ()"
  "map status (steps (snd (build_steps (ready_workflow\<lparr>workflow_status := ''running''\<rparr>)))) =
     replicate 9 ''pending''"
  "invocations (snd (build_steps (ready_workflow\<lparr>workflow_status := ''running''\<rparr>))) = []"
  "printed (snd (build_steps (ready_workflow\<lparr>workflow_status := ''running''\<rparr>))) = []"
  by (simp_all add: build_steps_def ready_workflow_def init_workflow_def Let_def new_step_def
      captured_def numeral_eq_Suc)

theorem workflow_failure_is_terminal_witness:
  "run_result third_fails 0 = Inr (JObj [(''id'', JStr ''r006-0001'')]) \<and>
   run_result third_fails 1 = Inr (JObj [(''id'', JStr ''r006-0001'')]) \<and>
   run_result third_fails 2 = Inl CalledProcessError \<and>
   \<not> fst (execute third_fails ready_workflow) \<and>
   workflow_status (snd (execute third_fails ready_workflow)) = ''failed'' \<and>
   length (invocations (snd (execute third_fails ready_workflow))) = 3 \<and>
   map status (steps (snd (execute third_fails ready_workflow))) =
     [''completed'', ''completed'', ''failed'', ''pending'', ''pending'', ''pending'',
      ''pending'', ''pending'', ''pending''] \<and>
   map fst (step_lines (last (printed (snd (execute third_fails ready_workflow))))) =
     [IconCompleted, IconCompleted, IconFailed, IconNotRun, IconNotRun, IconNotRun,
      IconNotRun, IconNotRun, IconNotRun] \<and>
   steps_completed (last (printed (snd (execute third_fails ready_workflow)))) = 2"
proof -
  let ?b = "snd (build_steps (ready_workflow\<lparr>workflow_status := ''running''\<rparr>))"
  note b = ready_workflow_built
  have bs: "build_steps (ready_workflow\<lparr>workflow_status := ''running''\<rparr>) = (Inr (), ?b)"
    using b(1) by (cases "build_steps (ready_workflow\<lparr>workflow_status := ''running''\<rparr>)") simp
  have len: "length (steps ?b) = 9"
    using arg_cong[OF b(2), of length] by simp
  have h1: "2 < length (steps ?b)" using len by simp
  have h2: "list_all (\<lambda>s. status s = ''pending'') (steps ?b)"
  proof -
    have "\<forall>x \<in> set (map status (steps ?b)). x = ''pending''"
      unfolding b(2) by simp
    then show ?thesis by (simp add: list_all_iff)
  qed
  have h3: "\<And>j. j < 2 \<Longrightarrow>
      \<exists>response. run_result third_fails (length (invocations ?b) + j) = Inr response"
    by (simp add: b(3) third_fails_def)
  have h4: "run_result third_fails (length (invocations ?b) + 2) = Inl CalledProcessError"
    by (simp add: b(3) third_fails_def)
  have r: "run_result third_fails 0 = Inr (JObj [(''id'', JStr ''r006-0001'')])"
    "run_result third_fails 1 = Inr (JObj [(''id'', JStr ''r006-0001'')])"
    "run_result third_fails 2 = Inl CalledProcessError"
    by (simp_all add: third_fails_def)
  note t = workflow_failure_is_terminal[OF h1 h2 h3 h4]
  have e: "execute third_fails ready_workflow = execute_steps third_fails ?b"
    using t by (intro execute_after_build[OF bs]) simp
  have l: "last (printed (snd (execute_steps third_fails ?b))) =
      summary_of (snd (execute_steps third_fails ?b))"
    using t by simp
  show ?thesis
    unfolding e l using t r by (simp add: len b(3) numeral_eq_Suc)
qed


end
